theory Spec2Isabelle
  imports Complex_Main
begin

section \<open>Python values\<close>

text \<open>
  The scripts work on what \<^verbatim>\<open>requests\<close> hands back from \<^verbatim>\<open>r.json()\<close>: \<^verbatim>\<open>None\<close>, booleans,
  integers, floats, strings, lists and dicts. A dict is the list of its items in insertion
  order; a parsed JSON object has each key once. Floats are the finite ones, as rationals.
  Strings are ASCII texts.
\<close>

datatype json =
    JNull
  | JBool bool
  | JInt int
  | JFloat rat
  | JStr string
  | JArr "json list"
  | JObj "(string \<times> json) list"

datatype error =
    RequestException
  | HTTPError nat
  | JSONDecodeError
  | AttributeError
  | KeyError
  | TypeError
  | RuntimeError json
  | TimeoutError
  | FileNotFoundError
  | IsADirectoryError
  | NotADirectoryError
  | PermissionError
  | OSError
  | ValueError

text \<open>Truth value of an object, as \<^verbatim>\<open>if x\<close>, \<^verbatim>\<open>not x\<close> and \<^verbatim>\<open>x or y\<close> test it.\<close>

fun truthy :: "json \<Rightarrow> bool" where
  "truthy JNull = False"
| "truthy (JBool b) = b"
| "truthy (JInt i) = (i \<noteq> 0)"
| "truthy (JFloat r) = (r \<noteq> 0)"
| "truthy (JStr s) = (s \<noteq> [])"
| "truthy (JArr xs) = (xs \<noteq> [])"
| "truthy (JObj kvs) = (kvs \<noteq> [])"

text \<open>\<^verbatim>\<open>x.get(k, d)\<close>: only a dict has the method; any other receiver raises AttributeError.\<close>

fun dict_get :: "json \<Rightarrow> string \<Rightarrow> json \<Rightarrow> error + json" where
  "dict_get (JObj kvs) k d = Inr (case map_of kvs k of None \<Rightarrow> d | Some v \<Rightarrow> v)"
| "dict_get _ k d = Inl AttributeError"

text \<open>The same call on the result of an earlier call, which may already have raised.\<close>

definition get_in :: "error + json \<Rightarrow> string \<Rightarrow> json \<Rightarrow> error + json" where
  "get_in r k d = (case r of Inl e \<Rightarrow> Inl e | Inr j \<Rightarrow> dict_get j k d)"

text \<open>\<^verbatim>\<open>a or b\<close>: the left operand when it is true, otherwise the right one; an exception
  of the left operand leaves the expression before the right one is looked at.\<close>

definition por :: "error + json \<Rightarrow> error + json \<Rightarrow> error + json" where
  "por a b = (case a of Inl e \<Rightarrow> Inl e | Inr v \<Rightarrow> if truthy v then Inr v else b)"

text \<open>\<^verbatim>\<open>x[k]\<close> with a string key: KeyError on a dict without the key, TypeError on
  everything that is not a dict.\<close>

fun subscript :: "json \<Rightarrow> string \<Rightarrow> error + json" where
  "subscript (JObj kvs) k = (case map_of kvs k of None \<Rightarrow> Inl KeyError | Some v \<Rightarrow> Inr v)"
| "subscript _ k = Inl TypeError"

definition subscript_in :: "error + json \<Rightarrow> string \<Rightarrow> error + json" where
  "subscript_in r k = (case r of Inl e \<Rightarrow> Inl e | Inr j \<Rightarrow> subscript j k)"

section \<open>The world outside the script\<close>

text \<open>
  What the operating system makes of a path. Nothing is there, and creating a file under
  this name meets an exception or none (the directory it would go into may be missing or
  closed). Or a regular file is there, with its bytes, and opening it for reading and for
  writing each meets an exception or none. Or the path is anything else: a directory, a
  device, a pipe, a name that the system refuses (too long, through a file, with a NUL
  byte); then opening it for reading gives an exception or the bytes read from it, and
  opening it for writing meets an exception or none.
\<close>

datatype entry =
    Missing "error option"
  | RegularFile "error option" "error option" string
  | NotRegular "error + string" "error option"

datatype endpoint =
    ExecutableTestSuites
  | TestObjects_upload
  | TestRuns
  | TestRuns_json json
  | TestRuns_html json

datatype verb = GET | POST

datatype body = NoBody | JsonText json | Multipart string string

record request =
  verb :: verb
  target :: endpoint
  headers :: "(string \<times> string) list"
  payload :: body

text \<open>
  A response carries its status code, its bytes and what \<^verbatim>\<open>r.json()\<close> makes of them
  (\<open>None\<close> when the bytes are not JSON and the call raises).
\<close>

record response =
  status_code :: nat
  content :: string
  decoded :: "json option"

text \<open>
  What one HTTP call meets: the response it ends with, or none when \<^verbatim>\<open>requests\<close> raises
  instead (no connection, a transport timeout), and the seconds it took.
\<close>

type_synonym exchange = "response option \<times> real"

record world =
  files :: "string \<Rightarrow> entry"
  sent :: "request list"
  clock :: real

definition answer :: "exchange \<Rightarrow> error + response" where
  "answer x = (case fst x of None \<Rightarrow> Inl RequestException | Some r \<Rightarrow> Inr r)"

definition http :: "request \<Rightarrow> exchange \<Rightarrow> world \<Rightarrow> (error + response) \<times> world" where
  "http req x w = (answer x, w\<lparr>sent := sent w @ [req], clock := clock w + snd x\<rparr>)"

text \<open>\<^verbatim>\<open>r.raise_for_status()\<close> raises HTTPError for the codes 400 to 599 and for no other.\<close>

definition raise_for_status :: "response \<Rightarrow> error + unit" where
  "raise_for_status r =
     (if 400 \<le> status_code r \<and> status_code r < 600 then Inl (HTTPError (status_code r))
      else Inr ())"

definition r_json :: "response \<Rightarrow> error + json" where
  "r_json r = (case decoded r of None \<Rightarrow> Inl JSONDecodeError | Some j \<Rightarrow> Inr j)"

text \<open>\<^verbatim>\<open>r.raise_for_status(); x = r.json()\<close> on the outcome of a call.\<close>

definition checked_json :: "error + response \<Rightarrow> error + json" where
  "checked_json r =
     (case r of
        Inl e \<Rightarrow> Inl e
      | Inr resp \<Rightarrow>
          (case raise_for_status resp of Inl e \<Rightarrow> Inl e | Inr _ \<Rightarrow> r_json resp))"



text \<open>
  \<^verbatim>\<open>with open(path, "wb") as f: f.write(bytes)\<close>: where nothing is, a file is created if
  the system allows it; a regular file that opens for writing is truncated and rewritten;
  anything else that opens for writing takes the bytes and stays what it is. The write
  itself is taken to succeed once the file is open.
\<close>

definition write_wb :: "string \<Rightarrow> string \<Rightarrow> world \<Rightarrow> (error + unit) \<times> world" where
  "write_wb path bytes w =
     (case files w path of
        Missing c \<Rightarrow>
          (case c of
             None \<Rightarrow> (Inr (), w\<lparr>files := (files w)(path := RegularFile None None bytes)\<rparr>)
           | Some e \<Rightarrow> (Inl e, w))
      | RegularFile rd wr old \<Rightarrow>
          (case wr of
             None \<Rightarrow> (Inr (), w\<lparr>files := (files w)(path := RegularFile rd wr bytes)\<rparr>)
           | Some e \<Rightarrow> (Inl e, w))
      | NotRegular r wr \<Rightarrow> (case wr of None \<Rightarrow> (Inr (), w) | Some e \<Rightarrow> (Inl e, w)))"

section \<open>Starting a run\<close>

definition json_headers :: "(string \<times> string) list" where
  "json_headers = [(''Content-Type'', ''application/json''), (''Accept'', ''application/json'')]"

definition run_body :: "string \<Rightarrow> string list \<Rightarrow> json \<Rightarrow> json" where
  "run_body label executable_test_suite_ids test_object =
     JObj [(''label'', JStr label),
           (''executableTestSuiteIds'', JArr (map JStr executable_test_suite_ids)),
           (''arguments'', JObj [(''files_to_test'', JStr ''.*''), (''tests_to_execute'', JStr ''.*'')]),
           (''testObject'', test_object)]"

definition run_request :: "string \<Rightarrow> string list \<Rightarrow> json \<Rightarrow> request" where
  "run_request label executable_test_suite_ids test_object =
     \<lparr>verb = POST, target = TestRuns, headers = json_headers,
      payload = JsonText (run_body label executable_test_suite_ids test_object)\<rparr>"

text \<open>The id expression of \<^verbatim>\<open>New_Validatoe_Inspiah.py\<close>, one chain of \<^verbatim>\<open>or\<close>.\<close>

definition run_id_of :: "json \<Rightarrow> error + json" where
  "run_id_of resp =
     por (get_in (get_in (get_in (dict_get resp ''EtfItemCollection'' (JObj []))
                    ''testRuns'' (JObj [])) ''TestRun'' (JObj [])) ''id'' JNull)
       (por (dict_get resp ''id'' JNull) (dict_get resp ''testRunId'' JNull))"

text \<open>The one of \<^verbatim>\<open>validatorInpire.py\<close>: the nested path first, the fallbacks under
  \<^verbatim>\<open>if not eid\<close>.\<close>

definition run_id_of_vi :: "json \<Rightarrow> error + json" where
  "run_id_of_vi resp =
     (case get_in (get_in (get_in (dict_get resp ''EtfItemCollection'' (JObj []))
                     ''testRuns'' (JObj [])) ''TestRun'' (JObj [])) ''id'' JNull of
        Inl e \<Rightarrow> Inl e
      | Inr eid \<Rightarrow>
          if \<not> truthy eid then por (dict_get resp ''id'' JNull) (dict_get resp ''testRunId'' JNull)
          else Inr eid)"

definition found_or_raise :: "json \<Rightarrow> error + json \<Rightarrow> error + json" where
  "found_or_raise resp r =
     (case r of Inl e \<Rightarrow> Inl e
      | Inr run_id \<Rightarrow> if \<not> truthy run_id then Inl (RuntimeError resp) else Inr run_id)"

definition start_test_run ::
  "exchange \<Rightarrow> string \<Rightarrow> string list \<Rightarrow> json \<Rightarrow> world \<Rightarrow> (error + json) \<times> world" where
  "start_test_run x label executable_test_suite_ids test_object w =
     (case http (run_request label executable_test_suite_ids test_object) x w of
        (r, w') \<Rightarrow>
          (case checked_json r of
             Inl e \<Rightarrow> (Inl e, w')
           | Inr resp \<Rightarrow> (found_or_raise resp (run_id_of resp), w')))"

definition start_test_run_vi ::
  "exchange \<Rightarrow> string \<Rightarrow> string list \<Rightarrow> json \<Rightarrow> world \<Rightarrow> (error + json) \<times> world" where
  "start_test_run_vi x label executable_test_suite_ids test_object w =
     (case http (run_request label executable_test_suite_ids test_object) x w of
        (r, w') \<Rightarrow>
          (case checked_json r of
             Inl e \<Rightarrow> (Inl e, w')
           | Inr resp \<Rightarrow> (found_or_raise resp (run_id_of_vi resp), w')))"

text \<open>
  The specification's reading of a key path: the value reached by following the keys
  through nested objects, nothing when a key is missing or a node on the way is no object.
\<close>

fun at_path :: "string list \<Rightarrow> json \<Rightarrow> json option" where
  "at_path [] j = Some j"
| "at_path (k # ks) (JObj kvs) = (case map_of kvs k of None \<Rightarrow> None | Some v \<Rightarrow> at_path ks v)"
| "at_path (k # ks) _ = None"

definition resolves :: "string list \<Rightarrow> json \<Rightarrow> json option" where
  "resolves p j = (case at_path p j of Some v \<Rightarrow> if truthy v then Some v else None | None \<Rightarrow> None)"

fun first_resolving :: "string list list \<Rightarrow> json \<Rightarrow> json option" where
  "first_resolving [] j = None"
| "first_resolving (p # ps) j =
     (case resolves p j of Some v \<Rightarrow> Some v | None \<Rightarrow> first_resolving ps j)"

definition run_id_paths :: "string list list" where
  "run_id_paths = [[''EtfItemCollection'', ''testRuns'', ''TestRun'', ''id''], [''id''], [''testRunId'']]"

text \<open>Every node that the walk along a path reaches before the last key is an object.\<close>

fun objects_along :: "string list \<Rightarrow> json \<Rightarrow> bool" where
  "objects_along [] j = True"
| "objects_along (k # ks) (JObj kvs) =
     (case map_of kvs k of None \<Rightarrow> True | Some v \<Rightarrow> objects_along ks v)"
| "objects_along (k # ks) _ = False"

section \<open>Polling a run\<close>

definition POLL_EVERY :: real where
  "POLL_EVERY = 5"

definition POLL_TIMEOUT :: real where
  "POLL_TIMEOUT = 25 * 60"

definition status_request :: "json \<Rightarrow> request" where
  "status_request run_id =
     \<lparr>verb = GET, target = TestRuns_json run_id, headers = [(''Accept'', ''application/json'')],
      payload = NoBody\<rparr>"

text \<open>The status expression of \<^verbatim>\<open>New_Validatoe_Inspiah.py\<close>, ending in the sentinel.\<close>

definition status_of :: "json \<Rightarrow> error + json" where
  "status_of js =
     por (get_in (dict_get js ''TestRun'' (JObj [])) ''status'' JNull)
       (por (dict_get js ''status'' JNull)
          (por (get_in (dict_get js ''EtfItem'' (JObj [])) ''status'' JNull)
             (Inr (JStr ''UNKNOWN''))))"

definition get_test_run_status :: "exchange \<Rightarrow> json \<Rightarrow> world \<Rightarrow> (error + json) \<times> world" where
  "get_test_run_status x run_id w =
     (case http (status_request run_id) x w of
        (r, w') \<Rightarrow>
          (case checked_json r of Inl e \<Rightarrow> (Inl e, w') | Inr js \<Rightarrow> (status_of js, w')))"

text \<open>In \<^verbatim>\<open>validatorInpire.py\<close> the request returns the whole reply and the loop reads the
  status out of it, with no sentinel.\<close>

definition get_test_run_status_vi :: "exchange \<Rightarrow> json \<Rightarrow> world \<Rightarrow> (error + json) \<times> world" where
  "get_test_run_status_vi x test_run_id w =
     (case http (status_request test_run_id) x w of (r, w') \<Rightarrow> (checked_json r, w'))"

definition status_of_vi :: "json \<Rightarrow> error + json" where
  "status_of_vi js =
     por (get_in (dict_get js ''TestRun'' (JObj [])) ''status'' JNull)
       (por (dict_get js ''status'' JNull)
          (get_in (dict_get js ''EtfItem'' (JObj [])) ''status'' JNull))"

text \<open>\<^verbatim>\<open>str.upper\<close> on ASCII text; every other object has no such method.\<close>

definition upper_char :: "char \<Rightarrow> char" where
  "upper_char c =
     (case map_of (zip ''abcdefghijklmnopqrstuvwxyz'' ''ABCDEFGHIJKLMNOPQRSTUVWXYZ'') c of
        None \<Rightarrow> c
      | Some u \<Rightarrow> u)"

definition upper :: "string \<Rightarrow> string" where
  "upper s = map upper_char s"

fun py_upper :: "json \<Rightarrow> error + string" where
  "py_upper (JStr s) = Inr (upper s)"
| "py_upper _ = Inl AttributeError"

definition finished :: "string \<Rightarrow> bool" where
  "finished u = (u = ''COMPLETED'' \<or> u = ''FAILED'')"

text \<open>\<^verbatim>\<open>time.sleep(d)\<close> lasts \<open>d\<close> seconds and whatever the scheduler adds.\<close>

definition sleep :: "real \<Rightarrow> real \<Rightarrow> world \<Rightarrow> world" where
  "sleep d late w = w\<lparr>clock := clock w + d + late\<rparr>"

text \<open>
  One round of the loop meets the exchange of its status request and the lateness of its
  sleep. The loop runs for as long as the service keeps answering RUNNING, so the rounds
  are a list and a loop that is still going when the list ends has no result.
\<close>

type_synonym round = "exchange \<times> real"

fun wait_loop :: "real \<Rightarrow> round list \<Rightarrow> json \<Rightarrow> world \<Rightarrow> (error + json) option \<times> world" where
  "wait_loop start [] run_id w = (None, w)"
| "wait_loop start (p # ps) run_id w =
     (case get_test_run_status (fst p) run_id w of
        (Inl e, w') \<Rightarrow> (Some (Inl e), w')
      | (Inr status, w') \<Rightarrow>
          (case py_upper status of
             Inl e \<Rightarrow> (Some (Inl e), w')
           | Inr u \<Rightarrow>
               if finished u then (Some (Inr status), w')
               else if clock w' - start > POLL_TIMEOUT then (Some (Inl TimeoutError), w')
               else wait_loop start ps run_id (sleep POLL_EVERY (snd p) w')))"

definition wait_until_finished :: "round list \<Rightarrow> json \<Rightarrow> world \<Rightarrow> (error + json) option \<times> world" where
  "wait_until_finished ps run_id w = wait_loop (clock w) ps run_id w"

text \<open>\<^verbatim>\<open>status and status.upper() in {...}\<close>: a false status is not asked for its upper case.\<close>

definition finished_vi :: "json \<Rightarrow> error + bool" where
  "finished_vi status =
     (if \<not> truthy status then Inr False
      else (case py_upper status of Inl e \<Rightarrow> Inl e | Inr u \<Rightarrow> Inr (finished u)))"

fun wait_loop_vi :: "real \<Rightarrow> round list \<Rightarrow> json \<Rightarrow> world \<Rightarrow> (error + json) option \<times> world" where
  "wait_loop_vi start [] test_run_id w = (None, w)"
| "wait_loop_vi start (p # ps) test_run_id w =
     (case get_test_run_status_vi (fst p) test_run_id w of
        (Inl e, w') \<Rightarrow> (Some (Inl e), w')
      | (Inr js, w') \<Rightarrow>
          (case status_of_vi js of
             Inl e \<Rightarrow> (Some (Inl e), w')
           | Inr status \<Rightarrow>
               (case finished_vi status of
                  Inl e \<Rightarrow> (Some (Inl e), w')
                | Inr fin \<Rightarrow>
                    if fin then (Some (Inr status), w')
                    else if clock w' - start > POLL_TIMEOUT then (Some (Inl TimeoutError), w')
                    else wait_loop_vi start ps test_run_id (sleep POLL_EVERY (snd p) w'))))"

definition wait_until_finished_vi ::
  "round list \<Rightarrow> json \<Rightarrow> world \<Rightarrow> (error + json) option \<times> world" where
  "wait_until_finished_vi ps test_run_id w = wait_loop_vi (clock w) ps test_run_id w"

section \<open>Uploading a file and fetching the report\<close>




definition make_test_object_from_url :: "string \<Rightarrow> json" where
  "make_test_object_from_url resource_url = JObj [(''resources'', JObj [(''data'', JStr resource_url)])]"

definition report_request :: "json \<Rightarrow> request" where
  "report_request run_id = \<lparr>verb = GET, target = TestRuns_html run_id, headers = [], payload = NoBody\<rparr>"

definition download_report_html ::
  "exchange \<Rightarrow> json \<Rightarrow> string \<Rightarrow> world \<Rightarrow> (error + string) \<times> world" where
  "download_report_html x run_id out_path w =
     (case http (report_request run_id) x w of
        (r, w') \<Rightarrow>
          (case r of
             Inl e \<Rightarrow> (Inl e, w')
           | Inr resp \<Rightarrow>
               (case raise_for_status resp of
                  Inl e \<Rightarrow> (Inl e, w')
                | Inr _ \<Rightarrow>
                    (case write_wb out_path (content resp) w' of
                       (Inl e, w'') \<Rightarrow> (Inl e, w'')
                     | (Inr _, w'') \<Rightarrow> (Inr out_path, w'')))))"

section \<open>The suite catalog\<close>

text \<open>\<^verbatim>\<open>s.startswith(k)\<close> and \<^verbatim>\<open>k in s\<close> on strings.\<close>

fun starts_with :: "string \<Rightarrow> string \<Rightarrow> bool" where
  "starts_with s [] = True"
| "starts_with [] (c # k) = False"
| "starts_with (d # s) (c # k) = (d = c \<and> starts_with s k)"

fun contains :: "string \<Rightarrow> string \<Rightarrow> bool" where
  "contains [] k = (k = [])"
| "contains (d # s) k = (starts_with (d # s) k \<or> contains s k)"

text \<open>\<^verbatim>\<open>key in col\<close> for a string key: a key of a dict, an element of a list, a part of a
  string; the other objects are no containers.\<close>

fun py_in :: "string \<Rightarrow> json \<Rightarrow> error + bool" where
  "py_in key (JObj kvs) = Inr (map_of kvs key \<noteq> None)"
| "py_in key (JArr xs) = Inr (JStr key \<in> set xs)"
| "py_in key (JStr s) = Inr (contains s key)"
| "py_in key _ = Inl TypeError"

text \<open>What \<^verbatim>\<open>for e in x\<close> runs over: the elements of a list, the keys of a dict, the
  characters of a string.\<close>

fun py_iter :: "json \<Rightarrow> error + json list" where
  "py_iter (JArr xs) = Inr xs"
| "py_iter (JObj kvs) = Inr (map (\<lambda>kv. JStr (fst kv)) kvs)"
| "py_iter (JStr s) = Inr (map (\<lambda>c. JStr [c]) s)"
| "py_iter _ = Inl TypeError"

text \<open>The search for the suite block: the first of the keys that the collection has.\<close>

fun find_block :: "string list \<Rightarrow> json \<Rightarrow> error + json" where
  "find_block [] col = Inr JNull"
| "find_block (key # keys) col =
     (case py_in key col of
        Inl e \<Rightarrow> Inl e
      | Inr present \<Rightarrow> if present then subscript col key else find_block keys col)"

definition suite_record :: "json \<Rightarrow> error + json" where
  "suite_record e =
     (case por (dict_get e ''id'' JNull) (por (dict_get e ''@id'' JNull) (dict_get e ''localId'' JNull)) of
        Inl x \<Rightarrow> Inl x
      | Inr i \<Rightarrow>
          (case por (dict_get e ''label'' JNull) (por (dict_get e ''title'' JNull) (Inr (JStr []))) of
             Inl x \<Rightarrow> Inl x
           | Inr l \<Rightarrow>
               (case dict_get e ''description'' (JStr []) of
                  Inl x \<Rightarrow> Inl x
                | Inr d \<Rightarrow> Inr (JObj [(''id'', i), (''label'', l), (''description'', d)]))))"

fun append_records :: "json list \<Rightarrow> json list \<Rightarrow> error + json list" where
  "append_records suites [] = Inr suites"
| "append_records suites (e # es) =
     (case suite_record e of Inl x \<Rightarrow> Inl x | Inr r \<Rightarrow> append_records (suites @ [r]) es)"

text \<open>\<^verbatim>\<open>if isinstance(entries, dict): entries = [entries]\<close>\<close>

fun as_entries :: "json \<Rightarrow> json" where
  "as_entries (JObj kvs) = JArr [JObj kvs]"
| "as_entries j = j"

text \<open>The body of \<^verbatim>\<open>get_executable_test_suites\<close> from \<^verbatim>\<open>data = r.json()\<close> on.\<close>

definition suites_of :: "json \<Rightarrow> error + json list" where
  "suites_of data =
     (case dict_get data ''EtfItemCollection'' data of
        Inl e \<Rightarrow> Inl e
      | Inr col \<Rightarrow>
          (case find_block [''executableTestSuites'', ''items'', ''ExecutableTestSuites''] col of
             Inl e \<Rightarrow> Inl e
           | Inr ets_block \<Rightarrow>
               if \<not> truthy ets_block then (case data of JArr xs \<Rightarrow> Inr xs | _ \<Rightarrow> Inr [])
               else
                 (case por (dict_get ets_block ''ExecutableTestSuite'' JNull) (Inr ets_block) of
                    Inl e \<Rightarrow> Inl e
                  | Inr entries \<Rightarrow>
                      (case py_iter (as_entries entries) of
                         Inl e \<Rightarrow> Inl e
                       | Inr es \<Rightarrow> append_records [] es))))"

definition suites_request :: request where
  "suites_request =
     \<lparr>verb = GET, target = ExecutableTestSuites, headers = [(''Accept'', ''application/json'')],
      payload = NoBody\<rparr>"

definition get_executable_test_suites :: "exchange \<Rightarrow> world \<Rightarrow> (error + json list) \<times> world" where
  "get_executable_test_suites x w =
     (case http suites_request x w of
        (r, w') \<Rightarrow>
          (case checked_json r of Inl e \<Rightarrow> (Inl e, w') | Inr data \<Rightarrow> (suites_of data, w')))"

text \<open>\<^verbatim>\<open>[suite.get("id") for suite in suites if suite.get("id")]\<close>\<close>

fun ids_of :: "json list \<Rightarrow> error + json list" where
  "ids_of [] = Inr []"
| "ids_of (suite # suites) =
     (case dict_get suite ''id'' JNull of
        Inl e \<Rightarrow> Inl e
      | Inr i \<Rightarrow>
          (case ids_of suites of
             Inl e \<Rightarrow> Inl e
           | Inr rest \<Rightarrow> Inr (if truthy i then i # rest else rest)))"

text \<open>The \<^verbatim>\<open>try\<close> block of \<^verbatim>\<open>get_test_suite_ids_safe\<close> in \<^verbatim>\<open>my_validator.py\<close>.\<close>

definition suite_ids_body :: "json \<Rightarrow> error + json list" where
  "suite_ids_body executables_suites_results =
     (case get_in (get_in (dict_get executables_suites_results ''EtfItemCollection'' (JObj []))
                     ''executableTestSuites'' (JObj [])) ''ExecutableTestSuite'' (JArr []) of
        Inl e \<Rightarrow> Inl e
      | Inr suites \<Rightarrow>
          (case suites of
             JArr xs \<Rightarrow> ids_of xs
           | JObj kvs \<Rightarrow>
               (case dict_get suites ''id'' JNull of
                  Inl e \<Rightarrow> Inl e
                | Inr i \<Rightarrow> Inr (if truthy i then [i] else []))
           | _ \<Rightarrow> Inr []))"

definition get_test_suite_ids_safe :: "json \<Rightarrow> error + json list" where
  "get_test_suite_ids_safe executables_suites_results =
     (case suite_ids_body executables_suites_results of
        Inl e \<Rightarrow> if e = KeyError \<or> e = TypeError \<or> e = AttributeError then Inr [] else Inl e
      | Inr ids \<Rightarrow> Inr ids)"

section \<open>The lookup from label to id\<close>

text \<open>
  Keys of a dict are hashable objects, and two keys are the same key when they are equal:
  numbers and booleans by their value, strings by their characters.
\<close>

fun hashable :: "json \<Rightarrow> bool" where
  "hashable (JArr xs) = False"
| "hashable (JObj kvs) = False"
| "hashable j = True"

fun num_val :: "json \<Rightarrow> rat option" where
  "num_val (JBool b) = Some (if b then 1 else 0)"
| "num_val (JInt i) = Some (of_int i)"
| "num_val (JFloat r) = Some r"
| "num_val j = None"

definition key_eq :: "json \<Rightarrow> json \<Rightarrow> bool" where
  "key_eq a b =
     (case num_val a of
        Some x \<Rightarrow> (case num_val b of Some y \<Rightarrow> x = y | None \<Rightarrow> False)
      | None \<Rightarrow> (case num_val b of Some y \<Rightarrow> False | None \<Rightarrow> a = b))"

text \<open>\<^verbatim>\<open>d[k] = v\<close>: a key already there keeps its place and takes the new value.\<close>

fun dict_set :: "(json \<times> json) list \<Rightarrow> json \<Rightarrow> json \<Rightarrow> (json \<times> json) list" where
  "dict_set [] k v = [(k, v)]"
| "dict_set ((k', v') # d) k v =
     (if key_eq k' k then (k', v) # d else (k', v') # dict_set d k v)"

text \<open>\<^verbatim>\<open>{suite["label"]: suite["id"] for suite in suites}\<close>\<close>

fun fill_lookup :: "(json \<times> json) list \<Rightarrow> json list \<Rightarrow> error + (json \<times> json) list" where
  "fill_lookup d [] = Inr d"
| "fill_lookup d (suite # suites) =
     (case subscript suite ''label'' of
        Inl e \<Rightarrow> Inl e
      | Inr l \<Rightarrow>
          (case subscript suite ''id'' of
             Inl e \<Rightarrow> Inl e
           | Inr i \<Rightarrow> if \<not> hashable l then Inl TypeError else fill_lookup (dict_set d l i) suites))"

definition create_test_suite_lookup :: "json \<Rightarrow> error + (json \<times> json) list" where
  "create_test_suite_lookup executables_suites_results =
     (case subscript_in (subscript_in (subscript executables_suites_results ''EtfItemCollection'')
                           ''executableTestSuites'') ''ExecutableTestSuite'' of
        Inl e \<Rightarrow> Inl e
      | Inr suites \<Rightarrow>
          (case py_iter suites of Inl e \<Rightarrow> Inl e | Inr ss \<Rightarrow> fill_lookup [] ss))"

text \<open>\<^verbatim>\<open>IDs_info[label]\<close> and \<^verbatim>\<open>lookup.get(label)\<close> with a string label.\<close>

fun item_of :: "(json \<times> json) list \<Rightarrow> json \<Rightarrow> json option" where
  "item_of [] k = None"
| "item_of ((k', v) # d) k = (if key_eq k' k then Some v else item_of d k)"

definition lookup_subscript :: "(json \<times> json) list \<Rightarrow> string \<Rightarrow> error + json" where
  "lookup_subscript d label = (case item_of d (JStr label) of None \<Rightarrow> Inl KeyError | Some v \<Rightarrow> Inr v)"

definition lookup_get :: "(json \<times> json) list \<Rightarrow> string \<Rightarrow> json" where
  "lookup_get d label = (case item_of d (JStr label) of None \<Rightarrow> JNull | Some v \<Rightarrow> v)"

text \<open>A machine with no files, where any file may be created, nothing sent yet, and the
  clock at zero.\<close>

definition no_files :: "string \<Rightarrow> entry" where
  "no_files path = Missing None"

definition empty_world :: world where
  "empty_world = \<lparr>files = no_files, sent = [], clock = 0\<rparr>"

text \<open>A response with a status code and a JSON text, and the exchange that delivers it
  in no time.\<close>

definition json_response :: "nat \<Rightarrow> json \<Rightarrow> response" where
  "json_response code j = \<lparr>status_code = code, content = [], decoded = Some j\<rparr>"

definition ok_json :: "json \<Rightarrow> exchange" where
  "ok_json j = (Some (json_response 200 j), 0)"

section \<open>Notions used to state the properties\<close>

text \<open>The status that a round shows to the loop, when its request succeeds and the reply
  has one, and whether a status ends the loop.\<close>

definition observed :: "round \<Rightarrow> json option" where
  "observed p =
     (case checked_json (answer (fst p)) of
        Inl e \<Rightarrow> None
      | Inr js \<Rightarrow> (case status_of js of Inl e \<Rightarrow> None | Inr st \<Rightarrow> Some st))"

definition terminal :: "json \<Rightarrow> bool" where
  "terminal st = (case py_upper st of Inl e \<Rightarrow> False | Inr u \<Rightarrow> finished u)"

text \<open>The number of requests sent between two states of the world.\<close>

definition polls_made :: "world \<Rightarrow> world \<Rightarrow> nat" where
  "polls_made w w' = length (sent w') - length (sent w)"

definition status_paths :: "string list list" where
  "status_paths = [[''TestRun'', ''status''], [''status''], [''EtfItem'', ''status'']]"

text \<open>A round whose request is answered at once with a status, and whose sleep is exact.\<close>

definition prompt_round :: "string \<Rightarrow> round" where
  "prompt_round s = (ok_json (JObj [(''status'', JStr s)]), 0)"



text \<open>A response to the report request with a status code and the bytes of a page.\<close>

definition page_response :: "nat \<Rightarrow> string \<Rightarrow> exchange" where
  "page_response code bytes = (Some \<lparr>status_code = code, content = bytes, decoded = None\<rparr>, 0)"

text \<open>The collection that the service wraps around its suites, and a suite with an id and
  a label.\<close>

definition catalog_of :: "json \<Rightarrow> json" where
  "catalog_of suites =
     JObj [(''EtfItemCollection'', JObj [(''executableTestSuites'',
        JObj [(''ExecutableTestSuite'', suites)])])]"

definition suite :: "string \<Rightarrow> string \<Rightarrow> json" where
  "suite i l = JObj [(''id'', JStr i), (''label'', JStr l)]"

definition suites_path :: "string list" where
  "suites_path = [''EtfItemCollection'', ''executableTestSuites'', ''ExecutableTestSuite'']"

text \<open>The id of the first, and of the last, suite of a list that carries a given label.\<close>

fun first_match :: "string \<Rightarrow> json list \<Rightarrow> json option" where
  "first_match l [] = None"
| "first_match l (s # ss) =
     (if subscript s ''label'' = Inr (JStr l)
        then (case subscript s ''id'' of Inl e \<Rightarrow> None | Inr i \<Rightarrow> Some i)
      else first_match l ss)"

fun last_match :: "string \<Rightarrow> json list \<Rightarrow> json option" where
  "last_match l [] = None"
| "last_match l (s # ss) =
     (case last_match l ss of
        Some i \<Rightarrow> Some i
      | None \<Rightarrow>
          if subscript s ''label'' = Inr (JStr l)
            then (case subscript s ''id'' of Inl e \<Rightarrow> None | Inr i \<Rightarrow> Some i)
          else None)"

section \<open>Key paths and the chained lookups\<close>

lemma objects_along_Cons:
  "objects_along (k # ks) j \<longleftrightarrow>
     (\<exists>kvs. j = JObj kvs \<and> (case map_of kvs k of None \<Rightarrow> True | Some v \<Rightarrow> objects_along ks v))"
  by (cases j) simp_all

lemma last_get:
  "objects_along [d] j \<Longrightarrow>
   dict_get j d JNull = Inr (case at_path [d] j of None \<Rightarrow> JNull | Some v \<Rightarrow> v)"
  by (auto simp: objects_along_Cons split: option.splits)

lemma get_step:
  assumes "objects_along (k # ks) j" and "ks \<noteq> []"
  shows "\<exists>j'. dict_get j k (JObj []) = Inr j' \<and> objects_along ks j' \<and> at_path ks j' = at_path (k # ks) j"
proof -
  from assms(1) obtain kvs where j: "j = JObj kvs"
    and rest: "case map_of kvs k of None \<Rightarrow> True | Some v \<Rightarrow> objects_along ks v"
    by (auto simp: objects_along_Cons)
  obtain k' ks' where ks: "ks = k' # ks'" using assms(2) by (cases ks) auto
  show ?thesis
  proof (cases "map_of kvs k")
    case None
    then show ?thesis using j ks by simp
  next
    case (Some v)
    then show ?thesis using j rest by simp
  qed
qed

lemma nested_id:
  assumes "objects_along [a, b, c, d] resp"
  shows "get_in (get_in (get_in (dict_get resp a (JObj [])) b (JObj [])) c (JObj [])) d JNull =
     Inr (case at_path [a, b, c, d] resp of None \<Rightarrow> JNull | Some v \<Rightarrow> v)"
proof -
  from get_step [OF assms] obtain j1 where 1: "dict_get resp a (JObj []) = Inr j1"
    "objects_along [b, c, d] j1" "at_path [b, c, d] j1 = at_path [a, b, c, d] resp" by auto
  from get_step [OF 1(2)] obtain j2 where 2: "dict_get j1 b (JObj []) = Inr j2"
    "objects_along [c, d] j2" "at_path [c, d] j2 = at_path [b, c, d] j1" by auto
  from get_step [OF 2(2)] obtain j3 where 3: "dict_get j2 c (JObj []) = Inr j3"
    "objects_along [d] j3" "at_path [d] j3 = at_path [c, d] j2" by auto
  show ?thesis
    using 1 2 3 last_get [OF 3(2)] by (simp add: get_in_def)
qed

lemma nested_status:
  assumes "objects_along [a, d] js"
  shows "get_in (dict_get js a (JObj [])) d JNull =
     Inr (case at_path [a, d] js of None \<Rightarrow> JNull | Some v \<Rightarrow> v)"
proof -
  from get_step [OF assms] obtain j1 where 1: "dict_get js a (JObj []) = Inr j1"
    "objects_along [d] j1" "at_path [d] j1 = at_path [a, d] js" by auto
  show ?thesis
    using 1 last_get [OF 1(2)] by (simp add: get_in_def)
qed

lemma objects_along_object:
  "objects_along (k # ks) j \<Longrightarrow> objects_along [d] j"
  by (auto simp: objects_along_Cons split: option.splits)

lemma get_step_fail:
  "\<not> objects_along (k # ks) j \<Longrightarrow>
   dict_get j k (JObj []) = Inl AttributeError
   \<or> (\<exists>j'. dict_get j k (JObj []) = Inr j' \<and> \<not> objects_along ks j')"
  by (cases j) (auto split: option.splits)

lemma last_get_fail: "\<not> objects_along [d] j \<Longrightarrow> dict_get j d JNull = Inl AttributeError"
  by (cases j) (auto split: option.splits)

lemma nested_id_fail:
  assumes "\<not> objects_along [a, b, c, d] resp"
  shows "get_in (get_in (get_in (dict_get resp a (JObj [])) b (JObj [])) c (JObj [])) d JNull =
     Inl AttributeError"
proof -
  consider (1) "dict_get resp a (JObj []) = Inl AttributeError"
    | (2) j1 where "dict_get resp a (JObj []) = Inr j1" "dict_get j1 b (JObj []) = Inl AttributeError"
    | (3) j1 j2 where "dict_get resp a (JObj []) = Inr j1" "dict_get j1 b (JObj []) = Inr j2"
        "dict_get j2 c (JObj []) = Inl AttributeError"
    | (4) j1 j2 j3 where "dict_get resp a (JObj []) = Inr j1" "dict_get j1 b (JObj []) = Inr j2"
        "dict_get j2 c (JObj []) = Inr j3" "\<not> objects_along [d] j3"
    using get_step_fail [OF assms] get_step_fail [of b "[c, d]"] get_step_fail [of c "[d]"]
    by metis
  then show ?thesis
    by cases (simp_all add: get_in_def last_get_fail)
qed

lemma nested_status_fail:
  assumes "\<not> objects_along [a, d] js"
  shows "get_in (dict_get js a (JObj [])) d JNull = Inl AttributeError"
proof -
  consider (1) "dict_get js a (JObj []) = Inl AttributeError"
    | (2) j1 where "dict_get js a (JObj []) = Inr j1" "\<not> objects_along [d] j1"
    using get_step_fail [OF assms] by blast
  then show ?thesis
    by cases (simp_all add: get_in_def last_get_fail)
qed

lemma checked_json_ok:
  "\<not> (400 \<le> status_code r \<and> status_code r < 600) \<Longrightarrow> decoded r = Some j \<Longrightarrow>
   checked_json (Inr r) = Inr j"
  by (simp add: checked_json_def raise_for_status_def r_json_def)

section \<open>Starting a run: the request and the id\<close>

lemma run_id_of_vi_eq: "run_id_of_vi resp = run_id_of resp"
  by (simp add: run_id_of_vi_def run_id_of_def por_def split: sum.splits)

lemma run_id_of_paths:
  assumes "objects_along [''EtfItemCollection'', ''testRuns'', ''TestRun'', ''id''] resp"
  shows "found_or_raise resp (run_id_of resp) =
     (case first_resolving run_id_paths resp of None \<Rightarrow> Inl (RuntimeError resp) | Some v \<Rightarrow> Inr v)"
proof -
  have o: "objects_along [''id''] resp" "objects_along [''testRunId''] resp"
    using assms objects_along_object by blast+
  show ?thesis
    unfolding run_id_of_def nested_id [OF assms] last_get [OF o(1)] last_get [OF o(2)]
    by (simp add: run_id_paths_def resolves_def por_def found_or_raise_def split: option.splits)
qed

lemma run_id_of_fail:
  assumes "\<not> objects_along [''EtfItemCollection'', ''testRuns'', ''TestRun'', ''id''] resp"
  shows "found_or_raise resp (run_id_of resp) = Inl AttributeError"
  unfolding run_id_of_def nested_id_fail [OF assms]
  by (simp add: por_def found_or_raise_def)

text \<open>
  C9. Whatever the label, the suite ids and the test object, and whatever the service
  answers, \<open>start_test_run\<close> sends one POST to the run collection whose JSON body has the
  four fields \<open>label\<close>, \<open>executableTestSuiteIds\<close> (the ids as given), \<open>arguments\<close> (always the
  two wildcards) and \<open>testObject\<close> (the descriptor as passed in), and nothing else. Both
  scripts send the same request.
\<close>

theorem start_test_run_request:
  "sent (snd (start_test_run x label ids test_object w)) =
     sent w @ [\<lparr>verb = POST, target = TestRuns,
                headers = [(''Content-Type'', ''application/json''), (''Accept'', ''application/json'')],
                payload = JsonText (JObj [(''label'', JStr label),
                   (''executableTestSuiteIds'', JArr (map JStr ids)),
                   (''arguments'', JObj [(''files_to_test'', JStr ''.*''), (''tests_to_execute'', JStr ''.*'')]),
                   (''testObject'', test_object)])\<rparr>]
   \<and> sent (snd (start_test_run_vi x label ids test_object w)) =
       sent (snd (start_test_run x label ids test_object w))"
  by (simp add: start_test_run_def start_test_run_vi_def http_def run_request_def run_body_def
        json_headers_def split: sum.splits prod.splits)

text \<open>
  C1, as the code has it. Let the service answer the run request with a status outside
  400 to 599 and a JSON text. When every node on the way along
  \<open>EtfItemCollection.testRuns.TestRun\<close> is an object (the payload itself, and each of
  the three where it is present), \<open>start_test_run\<close> returns the value of the first of the
  three paths that resolves to a true value, and raises RuntimeError with the payload when
  none does. When one of these nodes is no object, it raises AttributeError, whatever the
  other paths hold. Both scripts agree.
\<close>

theorem start_test_run_first_id:
  assumes "fst x = Some r"
    and "\<not> (400 \<le> status_code r \<and> status_code r < 600)"
    and "decoded r = Some resp"
  shows "fst (start_test_run x label ids test_object w) =
           (if objects_along [''EtfItemCollection'', ''testRuns'', ''TestRun'', ''id''] resp
              then (case first_resolving run_id_paths resp of
                      None \<Rightarrow> Inl (RuntimeError resp) | Some v \<Rightarrow> Inr v)
            else Inl AttributeError)
         \<and> fst (start_test_run_vi x label ids test_object w) =
           fst (start_test_run x label ids test_object w)"
  using assms(1) checked_json_ok [OF assms(2,3)] run_id_of_paths [of resp] run_id_of_fail [of resp]
  by (simp add: start_test_run_def start_test_run_vi_def http_def answer_def run_id_of_vi_eq)

theorem start_test_run_first_id_witness:
  "fst (start_test_run
          (ok_json (JObj [(''EtfItemCollection'',
              JObj [(''testRuns'', JObj [(''TestRun'', JObj [(''id'', JStr ''RUN1'')])])])]))
          ''Suite A'' [''EID1''] (JObj [(''id'', JStr ''OBJ1'')]) empty_world) = Inr (JStr ''RUN1'')
   \<and> fst (start_test_run (ok_json (JObj [(''testRunId'', JStr ''RUN2''), (''id'', JStr [])]))
          ''Suite A'' [''EID1''] (JObj [(''id'', JStr ''OBJ1'')]) empty_world) = Inr (JStr ''RUN2'')
   \<and> fst (start_test_run (ok_json (JObj [(''id'', JNull)]))
          ''Suite A'' [''EID1''] (JObj [(''id'', JStr ''OBJ1'')]) empty_world) =
       Inl (RuntimeError (JObj [(''id'', JNull)]))
   \<and> fst (start_test_run (ok_json (JObj [(''EtfItemCollection'', JArr []), (''testRunId'', JStr ''RUN3'')]))
          ''Suite A'' [''EID1''] (JObj [(''id'', JStr ''OBJ1'')]) empty_world) = Inl AttributeError"
  using
    start_test_run_first_id [of
      "ok_json (JObj [(''EtfItemCollection'',
          JObj [(''testRuns'', JObj [(''TestRun'', JObj [(''id'', JStr ''RUN1'')])])])])"
      "json_response 200 (JObj [(''EtfItemCollection'',
          JObj [(''testRuns'', JObj [(''TestRun'', JObj [(''id'', JStr ''RUN1'')])])])])"
      "JObj [(''EtfItemCollection'',
          JObj [(''testRuns'', JObj [(''TestRun'', JObj [(''id'', JStr ''RUN1'')])])])]"
      "''Suite A''" "[''EID1'']" "JObj [(''id'', JStr ''OBJ1'')]" empty_world]
    start_test_run_first_id [of
      "ok_json (JObj [(''testRunId'', JStr ''RUN2''), (''id'', JStr [])])"
      "json_response 200 (JObj [(''testRunId'', JStr ''RUN2''), (''id'', JStr [])])"
      "JObj [(''testRunId'', JStr ''RUN2''), (''id'', JStr [])]"
      "''Suite A''" "[''EID1'']" "JObj [(''id'', JStr ''OBJ1'')]" empty_world]
    start_test_run_first_id [of
      "ok_json (JObj [(''id'', JNull)])"
      "json_response 200 (JObj [(''id'', JNull)])"
      "JObj [(''id'', JNull)]"
      "''Suite A''" "[''EID1'']" "JObj [(''id'', JStr ''OBJ1'')]" empty_world]
    start_test_run_first_id [of
      "ok_json (JObj [(''EtfItemCollection'', JArr []), (''testRunId'', JStr ''RUN3'')])"
      "json_response 200 (JObj [(''EtfItemCollection'', JArr []), (''testRunId'', JStr ''RUN3'')])"
      "JObj [(''EtfItemCollection'', JArr []), (''testRunId'', JStr ''RUN3'')]"
      "''Suite A''" "[''EID1'']" "JObj [(''id'', JStr ''OBJ1'')]" empty_world]
  by (simp add: ok_json_def json_response_def run_id_paths_def resolves_def)

text \<open>
  The claim as written fails where a node on the nested path is present and is no object:
  the id is at the top-level \<open>id\<close>, and the call ends in AttributeError.
\<close>

theorem start_test_run_first_id_counterexample:
  "resolves [''id''] (JObj [(''EtfItemCollection'', JNull), (''id'', JStr ''RUN1'')]) = Some (JStr ''RUN1'')
   \<and> fst (start_test_run (ok_json (JObj [(''EtfItemCollection'', JNull), (''id'', JStr ''RUN1'')]))
          ''Suite A'' [''EID1''] (JObj [(''id'', JStr ''OBJ1'')]) empty_world) = Inl AttributeError
   \<and> fst (start_test_run_vi (ok_json (JObj [(''EtfItemCollection'', JNull), (''id'', JStr ''RUN1'')]))
          ''Suite A'' [''EID1''] (JObj [(''id'', JStr ''OBJ1'')]) empty_world) = Inl AttributeError"
  by (simp add: resolves_def start_test_run_def start_test_run_vi_def http_def answer_def ok_json_def
        json_response_def checked_json_def raise_for_status_def r_json_def run_id_of_def
        run_id_of_vi_def get_in_def por_def found_or_raise_def)

section \<open>The poll loop\<close>

lemma upper_examples:
  "upper ''completed'' = ''COMPLETED''" "upper ''Failed'' = ''FAILED''" "upper ''UNKNOWN'' = ''UNKNOWN''"
  "upper ''RUNNING'' = ''RUNNING''"
  by (simp_all add: upper_def upper_char_def)

lemma not_finished_unknown: "\<not> finished (upper ''UNKNOWN'')"
  by (simp add: upper_def upper_char_def finished_def)

lemma status_of_vi_cases:
  "(\<exists>e. status_of_vi js = Inl e \<and> status_of js = Inl e)
   \<or> (\<exists>v. status_of_vi js = Inr v \<and> truthy v \<and> status_of js = Inr v)
   \<or> (\<exists>v. status_of_vi js = Inr v \<and> \<not> truthy v \<and> status_of js = Inr (JStr ''UNKNOWN''))"
  by (auto simp: status_of_vi_def status_of_def por_def split: sum.splits)

lemma wait_loop_vi_eq: "wait_loop_vi start ps run_id w = wait_loop start ps run_id w"
proof (induction ps arbitrary: w)
  case Nil
  show ?case by simp
next
  case (Cons p ps)
  show ?case
  proof (cases "checked_json (answer (fst p))")
    case (Inl e)
    then show ?thesis
      by (simp add: get_test_run_status_def get_test_run_status_vi_def http_def)
  next
    case (Inr js)
    consider (err) e where "status_of_vi js = Inl e" "status_of js = Inl e"
      | (val) v where "status_of_vi js = Inr v" "truthy v" "status_of js = Inr v"
      | (none) v where "status_of_vi js = Inr v" "\<not> truthy v" "status_of js = Inr (JStr ''UNKNOWN'')"
      using status_of_vi_cases [of js] by blast
    then show ?thesis
    proof cases
      case err
      then show ?thesis using Inr
        by (simp add: get_test_run_status_def get_test_run_status_vi_def http_def)
    next
      case val
      then show ?thesis using Inr Cons.IH
        by (simp add: get_test_run_status_def get_test_run_status_vi_def http_def finished_vi_def
              split: sum.splits)
    next
      case none
      then show ?thesis using Inr Cons.IH not_finished_unknown
        by (simp add: get_test_run_status_def get_test_run_status_vi_def http_def finished_vi_def)
    qed
  qed
qed

lemma wait_until_finished_vi_eq: "wait_until_finished_vi ps run_id w = wait_until_finished ps run_id w"
  by (simp add: wait_until_finished_vi_def wait_until_finished_def wait_loop_vi_eq)

lemma status_world:
  "snd (get_test_run_status x run_id w) =
     w\<lparr>sent := sent w @ [status_request run_id], clock := clock w + snd x\<rparr>"
  by (simp add: get_test_run_status_def http_def split: sum.splits)

lemma status_value:
  "fst (get_test_run_status x run_id w) =
     (case checked_json (answer x) of Inl e \<Rightarrow> Inl e | Inr js \<Rightarrow> status_of js)"
  by (simp add: get_test_run_status_def http_def split: sum.splits)

lemma wait_loop_Cons:
  "wait_loop start (p # ps) run_id w =
     (case fst (get_test_run_status (fst p) run_id w) of
        Inl e \<Rightarrow> (Some (Inl e), snd (get_test_run_status (fst p) run_id w))
      | Inr status \<Rightarrow>
          (case py_upper status of
             Inl e \<Rightarrow> (Some (Inl e), snd (get_test_run_status (fst p) run_id w))
           | Inr u \<Rightarrow>
               if finished u then (Some (Inr status), snd (get_test_run_status (fst p) run_id w))
               else if clock (snd (get_test_run_status (fst p) run_id w)) - start > POLL_TIMEOUT
                 then (Some (Inl TimeoutError), snd (get_test_run_status (fst p) run_id w))
               else wait_loop start ps run_id
                      (sleep POLL_EVERY (snd p) (snd (get_test_run_status (fst p) run_id w)))))"
  by (simp split: prod.splits sum.splits)

lemma observed_status:
  "observed p = (case fst (get_test_run_status (fst p) run_id w) of Inl e \<Rightarrow> None | Inr st \<Rightarrow> Some st)"
  by (simp add: observed_def status_value split: sum.splits)

text \<open>
  C10. At a round whose status check yields a string, the loop looks only at the upper-case
  form of the string: when that is COMPLETED or FAILED the loop returns the string as the
  service wrote it, whatever the clock shows; for every other string it returns nothing at
  this round and goes on to the timeout check, the sleep and the next poll. Both scripts
  run the same loop.
\<close>

theorem terminal_case_insensitive:
  assumes "fst (get_test_run_status (fst p) run_id w) = Inr (JStr s)"
  shows "wait_loop start (p # ps) run_id w =
           (if upper s = ''COMPLETED'' \<or> upper s = ''FAILED''
              then (Some (Inr (JStr s)), snd (get_test_run_status (fst p) run_id w))
            else if clock (snd (get_test_run_status (fst p) run_id w)) - start > POLL_TIMEOUT
              then (Some (Inl TimeoutError), snd (get_test_run_status (fst p) run_id w))
            else wait_loop start ps run_id
                   (sleep POLL_EVERY (snd p) (snd (get_test_run_status (fst p) run_id w))))
         \<and> wait_loop_vi start (p # ps) run_id w = wait_loop start (p # ps) run_id w"
  using assms by (simp add: wait_loop_Cons wait_loop_vi_eq finished_def del: wait_loop.simps)

theorem terminal_case_insensitive_witness:
  "fst (wait_until_finished [prompt_round ''completed''] (JStr ''RUN1'') empty_world) =
     Some (Inr (JStr ''completed''))
   \<and> fst (wait_until_finished [prompt_round ''Failed''] (JStr ''RUN1'') empty_world) =
     Some (Inr (JStr ''Failed''))
   \<and> fst (wait_until_finished [prompt_round ''RUNNING''] (JStr ''RUN1'') empty_world) = None"
  using terminal_case_insensitive [of "prompt_round ''completed''" "JStr ''RUN1''" empty_world
      "''completed''" 0 "[]"]
    terminal_case_insensitive [of "prompt_round ''Failed''" "JStr ''RUN1''" empty_world
      "''Failed''" 0 "[]"]
    terminal_case_insensitive [of "prompt_round ''RUNNING''" "JStr ''RUN1''" empty_world
      "''RUNNING''" 0 "[]"]
  by (simp add: wait_until_finished_def empty_world_def prompt_round_def ok_json_def json_response_def
        status_value status_world answer_def checked_json_def raise_for_status_def r_json_def
        status_of_def get_in_def por_def upper_def upper_char_def POLL_TIMEOUT_def
        del: wait_loop.simps(2))

lemma status_of_paths:
  assumes "objects_along [''TestRun'', ''status''] js" and "objects_along [''EtfItem'', ''status''] js"
  shows "status_of js =
     Inr (case first_resolving status_paths js of None \<Rightarrow> JStr ''UNKNOWN'' | Some v \<Rightarrow> v)"
proof -
  have o: "objects_along [''status''] js"
    using assms(1) objects_along_object by blast
  show ?thesis
    unfolding status_of_def nested_status [OF assms(1)] nested_status [OF assms(2)] last_get [OF o]
    by (simp add: status_paths_def resolves_def por_def split: option.splits)
qed

lemma status_of_fail:
  assumes "first_resolving status_paths js = None"
    and "\<not> (objects_along [''TestRun'', ''status''] js \<and> objects_along [''EtfItem'', ''status''] js)"
  shows "status_of js = Inl AttributeError"
proof (cases "objects_along [''TestRun'', ''status''] js")
  case False
  show ?thesis
    unfolding status_of_def nested_status_fail [OF False] by (simp add: por_def)
next
  case True
  then have e: "\<not> objects_along [''EtfItem'', ''status''] js" using assms(2) by simp
  have o: "objects_along [''status''] js"
    using True objects_along_object by blast
  from assms(1) have "resolves [''TestRun'', ''status''] js = None" "resolves [''status''] js = None"
    by (simp_all add: status_paths_def split: option.splits)
  then show ?thesis
    unfolding status_of_def nested_status [OF True] last_get [OF o] nested_status_fail [OF e]
    by (simp add: resolves_def por_def split: option.splits if_splits)
qed

text \<open>
  C5, as the code has it. Let the status request be answered with a status outside 400 to
  599 and a JSON text in which none of the three status paths resolves to a true value.
  When the reply is an object in which \<open>TestRun\<close> and \<open>EtfItem\<close> are objects where they
  are present, \<open>get_test_run_status\<close> returns the string UNKNOWN, and the loop does not
  end on account of this reply: it goes on to the timeout check and, within the time
  limit, to the next poll. Otherwise the status check raises AttributeError, and the loop
  ends with it. The loop of the other script, which has no sentinel, does the same.
\<close>

theorem status_unknown_when_absent:
  assumes "fst x = Some r"
    and "\<not> (400 \<le> status_code r \<and> status_code r < 600)"
    and "decoded r = Some js"
    and "first_resolving status_paths js = None"
  shows "(objects_along [''TestRun'', ''status''] js \<and> objects_along [''EtfItem'', ''status''] js \<longrightarrow>
            fst (get_test_run_status x run_id w) = Inr (JStr ''UNKNOWN'')
            \<and> wait_loop start ((x, late) # ps) run_id w =
                (if clock (snd (get_test_run_status x run_id w)) - start > POLL_TIMEOUT
                   then (Some (Inl TimeoutError), snd (get_test_run_status x run_id w))
                 else wait_loop start ps run_id
                        (sleep POLL_EVERY late (snd (get_test_run_status x run_id w)))))
         \<and> (\<not> (objects_along [''TestRun'', ''status''] js \<and> objects_along [''EtfItem'', ''status''] js) \<longrightarrow>
              fst (get_test_run_status x run_id w) = Inl AttributeError
              \<and> fst (wait_loop start ((x, late) # ps) run_id w) = Some (Inl AttributeError))
         \<and> wait_loop_vi start ((x, late) # ps) run_id w = wait_loop start ((x, late) # ps) run_id w"
proof -
  have c: "checked_json (answer x) = Inr js"
    using assms(1) checked_json_ok [OF assms(2,3)] by (simp add: answer_def)
  have good: "fst (get_test_run_status x run_id w) = Inr (JStr ''UNKNOWN'')"
    if "objects_along [''TestRun'', ''status''] js" "objects_along [''EtfItem'', ''status''] js"
    using c status_of_paths [OF that] assms(4) by (simp add: status_value)
  have bad: "fst (get_test_run_status x run_id w) = Inl AttributeError"
    if "\<not> (objects_along [''TestRun'', ''status''] js \<and> objects_along [''EtfItem'', ''status''] js)"
    using c status_of_fail [OF assms(4) that] by (simp add: status_value)
  show ?thesis
  proof (intro conjI impI)
    assume o: "objects_along [''TestRun'', ''status''] js \<and> objects_along [''EtfItem'', ''status''] js"
    then show "fst (get_test_run_status x run_id w) = Inr (JStr ''UNKNOWN'')"
      using good by simp
    from o show "wait_loop start ((x, late) # ps) run_id w =
                (if clock (snd (get_test_run_status x run_id w)) - start > POLL_TIMEOUT
                   then (Some (Inl TimeoutError), snd (get_test_run_status x run_id w))
                 else wait_loop start ps run_id
                        (sleep POLL_EVERY late (snd (get_test_run_status x run_id w))))"
      using good not_finished_unknown by (simp add: wait_loop_Cons del: wait_loop.simps)
  next
    assume n: "\<not> (objects_along [''TestRun'', ''status''] js \<and> objects_along [''EtfItem'', ''status''] js)"
    then show "fst (get_test_run_status x run_id w) = Inl AttributeError"
      using bad by simp
    from n show "fst (wait_loop start ((x, late) # ps) run_id w) = Some (Inl AttributeError)"
      using bad by (simp add: wait_loop_Cons del: wait_loop.simps)
  next
    show "wait_loop_vi start ((x, late) # ps) run_id w = wait_loop start ((x, late) # ps) run_id w"
      by (rule wait_loop_vi_eq)
  qed
qed

theorem status_unknown_when_absent_witness:
  "fst (get_test_run_status (ok_json (JObj [(''EtfItem'', JObj []), (''status'', JNull)]))
          (JStr ''RUN1'') empty_world) = Inr (JStr ''UNKNOWN'')
   \<and> fst (wait_loop 0 [(ok_json (JObj [(''EtfItem'', JObj []), (''status'', JNull)]), 0)]
          (JStr ''RUN1'') empty_world) = None
   \<and> fst (get_test_run_status (ok_json (JObj [(''EtfItem'', JNull)])) (JStr ''RUN1'') empty_world) =
       Inl AttributeError"
  using status_unknown_when_absent [of
      "ok_json (JObj [(''EtfItem'', JObj []), (''status'', JNull)])"
      "json_response 200 (JObj [(''EtfItem'', JObj []), (''status'', JNull)])"
      "JObj [(''EtfItem'', JObj []), (''status'', JNull)]"
      "JStr ''RUN1''" empty_world 0 0 "[]"]
    status_unknown_when_absent [of
      "ok_json (JObj [(''EtfItem'', JNull)])"
      "json_response 200 (JObj [(''EtfItem'', JNull)])"
      "JObj [(''EtfItem'', JNull)]"
      "JStr ''RUN1''" empty_world 0 0 "[]"]
  by (simp add: ok_json_def json_response_def status_paths_def resolves_def status_world
        empty_world_def POLL_TIMEOUT_def del: wait_loop.simps(2))

text \<open>
  The claim as written fails on a reply whose \<open>TestRun\<close> is null: no path resolves, and the
  status check raises AttributeError instead of returning the sentinel.
\<close>

theorem status_unknown_when_absent_counterexample:
  "first_resolving status_paths (JObj [(''TestRun'', JNull)]) = None
   \<and> fst (get_test_run_status (ok_json (JObj [(''TestRun'', JNull)])) (JStr ''RUN1'') empty_world) =
       Inl AttributeError
   \<and> fst (wait_until_finished_vi [(ok_json (JObj [(''TestRun'', JNull)]), 0)] (JStr ''RUN1'')
          empty_world) = Some (Inl AttributeError)"
  by (simp add: status_paths_def resolves_def status_value ok_json_def json_response_def answer_def
        checked_json_def raise_for_status_def r_json_def status_of_def get_in_def por_def
        wait_until_finished_vi_eq wait_until_finished_def wait_loop_Cons del: wait_loop.simps(2))

lemma wait_loop_append:
  "fst (wait_loop start pre run_id w) = None \<Longrightarrow>
   wait_loop start (pre @ qs) run_id w = wait_loop start qs run_id (snd (wait_loop start pre run_id w))"
proof (induction pre arbitrary: w)
  case Nil
  show ?case by simp
next
  case (Cons p pre)
  from Cons.prems show ?case
    by (auto simp add: wait_loop_Cons Cons.IH simp del: wait_loop.simps
          split: sum.splits if_splits)
qed

lemma status_of_error: "status_of js = Inl e \<Longrightarrow> e = AttributeError"
  by (cases js) (auto simp: status_of_def por_def get_in_def split: sum.splits if_splits option.splits
        elim!: dict_get.elims)

lemma py_upper_error: "py_upper st = Inl e \<Longrightarrow> e = AttributeError"
  by (cases st) auto

lemma checked_json_error:
  "checked_json (answer x) = Inl e \<Longrightarrow>
     e = RequestException \<or> (\<exists>c. 400 \<le> c \<and> c < 600 \<and> e = HTTPError c) \<or> e = JSONDecodeError"
  by (auto simp: checked_json_def answer_def raise_for_status_def r_json_def
        split: option.splits sum.splits if_splits)

lemma wait_loop_outcomes:
  "fst (wait_loop start ps run_id w) = Some out \<Longrightarrow>
     (\<exists>st. out = Inr st \<and> terminal st \<and> (\<exists>p \<in> set ps. observed p = Some st))
     \<or> out = Inl TimeoutError
     \<or> (\<exists>p \<in> set ps. checked_json (answer (fst p)) = Inl RequestException \<and> out = Inl RequestException)
     \<or> (\<exists>p \<in> set ps. \<exists>c. checked_json (answer (fst p)) = Inl (HTTPError c) \<and> out = Inl (HTTPError c))
     \<or> (\<exists>p \<in> set ps. checked_json (answer (fst p)) = Inl JSONDecodeError \<and> out = Inl JSONDecodeError)
     \<or> (\<exists>p \<in> set ps. observed p = None \<and> out = Inl AttributeError)
     \<or> (\<exists>p \<in> set ps. \<exists>st. observed p = Some st \<and> py_upper st = Inl AttributeError
           \<and> out = Inl AttributeError)"
proof (induction ps arbitrary: w)
  case Nil
  then show ?case by simp
next
  case (Cons p ps)
  show ?case
  proof (cases "checked_json (answer (fst p))")
    case (Inl e)
    with Cons.prems have out: "out = Inl e"
      by (simp add: wait_loop_Cons status_value del: wait_loop.simps)
    from checked_json_error [OF Inl] show ?thesis
      using Inl out by auto
  next
    case (Inr js)
    note js = Inr
    show ?thesis
    proof (cases "status_of js")
      case (Inl e)
      then have s: "status_of js = Inl AttributeError"
        using status_of_error by blast
      have "observed p = None"
        using s js by (simp add: observed_def)
      moreover have "out = Inl AttributeError"
        using s js Cons.prems by (simp add: wait_loop_Cons status_value del: wait_loop.simps)
      ultimately show ?thesis by auto
    next
      case (Inr st)
      then have obs: "observed p = Some st" using js by (simp add: observed_def)
      show ?thesis
      proof (cases "py_upper st")
        case (Inl e)
        then have up: "py_upper st = Inl AttributeError"
          using py_upper_error by blast
        have "out = Inl AttributeError"
          using up Inr js Cons.prems by (simp add: wait_loop_Cons status_value del: wait_loop.simps)
        with obs up show ?thesis by auto
      next
        case (Inr u)
        note u = Inr
        show ?thesis
        proof (cases "finished u")
          case True
          with u \<open>status_of js = Inr st\<close> js Cons.prems have "out = Inr st" "terminal st"
            by (simp_all add: wait_loop_Cons status_value terminal_def del: wait_loop.simps)
          with obs show ?thesis by auto
        next
          case False
          show ?thesis
          proof (cases "clock (snd (get_test_run_status (fst p) run_id w)) - start > POLL_TIMEOUT")
            case True
            with False u \<open>status_of js = Inr st\<close> js Cons.prems have "out = Inl TimeoutError"
              by (simp add: wait_loop_Cons status_value del: wait_loop.simps)
            then show ?thesis by simp
          next
            case late: False
            with False u \<open>status_of js = Inr st\<close> js Cons.prems
            have "fst (wait_loop start ps run_id
                    (sleep POLL_EVERY (snd p) (snd (get_test_run_status (fst p) run_id w)))) = Some out"
              by (simp add: wait_loop_Cons status_value del: wait_loop.simps)
            from Cons.IH [OF this] show ?thesis by auto
          qed
        qed
      qed
    qed
  qed
qed

text \<open>
  C4, as the code has it. Once a round shows a terminal status to a loop that is still
  polling, the loop returns that status as its value. Every result of the loop is a
  terminal status that one of the rounds showed, or one of these exceptions: TimeoutError;
  the exception of a status request (RequestException when \<^verbatim>\<open>requests\<close> raises, HTTPError
  for a status from 400 to 599, JSONDecodeError for a body that is no JSON); AttributeError
  when a reply is not of the expected shape or its status is a true value that is no
  string. Both scripts run the same loop.
\<close>

theorem wait_until_finished_outcomes:
  "(fst (wait_until_finished pre run_id w) = None \<and> observed p = Some st \<and> terminal st \<longrightarrow>
      fst (wait_until_finished (pre @ p # post) run_id w) = Some (Inr st))
   \<and> (fst (wait_until_finished ps run_id w) = Some out \<longrightarrow>
        (\<exists>st. out = Inr st \<and> terminal st \<and> (\<exists>p \<in> set ps. observed p = Some st))
        \<or> out = Inl TimeoutError
        \<or> (\<exists>p \<in> set ps. checked_json (answer (fst p)) = Inl RequestException \<and> out = Inl RequestException)
        \<or> (\<exists>p \<in> set ps. \<exists>c. checked_json (answer (fst p)) = Inl (HTTPError c) \<and> out = Inl (HTTPError c))
        \<or> (\<exists>p \<in> set ps. checked_json (answer (fst p)) = Inl JSONDecodeError \<and> out = Inl JSONDecodeError)
        \<or> (\<exists>p \<in> set ps. observed p = None \<and> out = Inl AttributeError)
        \<or> (\<exists>p \<in> set ps. \<exists>st. observed p = Some st \<and> py_upper st = Inl AttributeError
              \<and> out = Inl AttributeError))
   \<and> wait_until_finished_vi ps run_id w = wait_until_finished ps run_id w"
proof (intro conjI impI)
  assume a: "fst (wait_until_finished pre run_id w) = None \<and> observed p = Some st \<and> terminal st"
  then have pre: "fst (wait_loop (clock w) pre run_id w) = None"
    by (simp add: wait_until_finished_def)
  from a have "fst (get_test_run_status (fst p) run_id (snd (wait_loop (clock w) pre run_id w))) = Inr st"
    by (simp add: observed_def status_value split: sum.splits)
  moreover from a obtain u where "py_upper st = Inr u" "finished u"
    by (auto simp: terminal_def split: sum.splits)
  ultimately show "fst (wait_until_finished (pre @ p # post) run_id w) = Some (Inr st)"
    by (simp add: wait_until_finished_def wait_loop_append [OF pre] wait_loop_Cons
          del: wait_loop.simps)
next
  assume "fst (wait_until_finished ps run_id w) = Some out"
  then have "fst (wait_loop (clock w) ps run_id w) = Some out"
    by (simp add: wait_until_finished_def)
  then show "(\<exists>st. out = Inr st \<and> terminal st \<and> (\<exists>p \<in> set ps. observed p = Some st))
        \<or> out = Inl TimeoutError
        \<or> (\<exists>p \<in> set ps. checked_json (answer (fst p)) = Inl RequestException \<and> out = Inl RequestException)
        \<or> (\<exists>p \<in> set ps. \<exists>c. checked_json (answer (fst p)) = Inl (HTTPError c) \<and> out = Inl (HTTPError c))
        \<or> (\<exists>p \<in> set ps. checked_json (answer (fst p)) = Inl JSONDecodeError \<and> out = Inl JSONDecodeError)
        \<or> (\<exists>p \<in> set ps. observed p = None \<and> out = Inl AttributeError)
        \<or> (\<exists>p \<in> set ps. \<exists>st. observed p = Some st \<and> py_upper st = Inl AttributeError
              \<and> out = Inl AttributeError)"
    by (rule wait_loop_outcomes)
next
  show "wait_until_finished_vi ps run_id w = wait_until_finished ps run_id w"
    by (rule wait_until_finished_vi_eq)
qed

lemma prompt_round_status:
  "fst (get_test_run_status (fst (prompt_round s)) run_id w) =
     Inr (if s = [] then JStr ''UNKNOWN'' else JStr s)"
  by (simp add: status_value prompt_round_def ok_json_def json_response_def answer_def
        checked_json_def raise_for_status_def r_json_def status_of_def get_in_def por_def)

lemma prompt_round_times: "snd (fst (prompt_round s)) = 0" "snd (prompt_round s) = 0"
  by (simp_all add: prompt_round_def ok_json_def)

theorem wait_until_finished_outcomes_witness:
  "fst (wait_until_finished [prompt_round ''RUNNING'', prompt_round ''FAILED''] (JStr ''RUN1'')
          empty_world) = Some (Inr (JStr ''FAILED''))
   \<and> fst (wait_until_finished [prompt_round ''RUNNING'', prompt_round ''COMPLETED'']
          (JStr ''RUN1'') empty_world) = Some (Inr (JStr ''COMPLETED''))
   \<and> terminal (JStr ''COMPLETED'') \<and> terminal (JStr ''FAILED'')"
proof -
  have pre: "fst (wait_until_finished [prompt_round ''RUNNING''] (JStr ''RUN1'') empty_world) = None"
    by (simp add: wait_until_finished_def wait_loop_Cons prompt_round_status upper_def upper_char_def
          finished_def status_world empty_world_def POLL_TIMEOUT_def prompt_round_times
          del: wait_loop.simps(2))
  have obs: "observed (prompt_round ''FAILED'') = Some (JStr ''FAILED'')"
    "observed (prompt_round ''COMPLETED'') = Some (JStr ''COMPLETED'')"
    by (simp_all add: observed_status [of _ "JStr ''RUN1''" empty_world] prompt_round_status)
  have t: "terminal (JStr ''COMPLETED'')" "terminal (JStr ''FAILED'')"
    by (simp_all add: terminal_def upper_def upper_char_def finished_def)
  show ?thesis
    using wait_until_finished_outcomes [of "[prompt_round ''RUNNING'']" "JStr ''RUN1''" empty_world
        "prompt_round ''FAILED''" "JStr ''FAILED''" "[]" "[]" "Inr JNull"]
      wait_until_finished_outcomes [of "[prompt_round ''RUNNING'']" "JStr ''RUN1''" empty_world
        "prompt_round ''COMPLETED''" "JStr ''COMPLETED''" "[]" "[]" "Inr JNull"]
      pre obs t
    by simp
qed

text \<open>
  The claim as written fails on a reply whose status is a number: the request succeeds,
  the clock is within the limit, and the loop ends in AttributeError.
\<close>

theorem wait_until_finished_outcomes_counterexample:
  "checked_json (answer (ok_json (JObj [(''status'', JInt 5)]))) = Inr (JObj [(''status'', JInt 5)])
   \<and> fst (wait_until_finished [(ok_json (JObj [(''status'', JInt 5)]), 0)] (JStr ''RUN1'') empty_world) =
       Some (Inl AttributeError)
   \<and> fst (wait_until_finished_vi [(ok_json (JObj [(''status'', JInt 5)]), 0)] (JStr ''RUN1'')
          empty_world) = Some (Inl AttributeError)"
  by (simp add: wait_until_finished_vi_eq wait_until_finished_def wait_loop_Cons status_value
        ok_json_def json_response_def answer_def checked_json_def raise_for_status_def r_json_def
        status_of_def get_in_def por_def del: wait_loop.simps(2))

lemma wait_loop_timeout:
  assumes "fst (wait_loop start ps run_id w) = Some (Inl TimeoutError)"
  shows "\<exists>n. length (sent (snd (wait_loop start ps run_id w))) = length (sent w) + n
           \<and> 1 \<le> n \<and> n \<le> length ps
           \<and> (\<forall>p \<in> set (take n ps). \<exists>st. observed p = Some st \<and> \<not> terminal st)
           \<and> POLL_TIMEOUT < clock (snd (wait_loop start ps run_id w)) - start"
  using assms
proof (induction ps arbitrary: w)
  case Nil
  then show ?case by simp
next
  case (Cons p ps)
  let ?w' = "snd (get_test_run_status (fst p) run_id w)"
  have len: "length (sent ?w') = length (sent w) + 1"
    by (simp add: status_world)
  show ?case
  proof (cases "checked_json (answer (fst p))")
    case (Inl e)
    with Cons.prems have "e = TimeoutError"
      by (simp add: wait_loop_Cons status_value del: wait_loop.simps)
    with checked_json_error [OF Inl] show ?thesis by simp
  next
    case (Inr js)
    note js = Inr
    show ?thesis
    proof (cases "status_of js")
      case (Inl e)
      then have "status_of js = Inl AttributeError" using status_of_error by blast
      with js Cons.prems show ?thesis
        by (simp add: wait_loop_Cons status_value del: wait_loop.simps)
    next
      case (Inr st)
      note st = Inr
      then have obs: "observed p = Some st" using js by (simp add: observed_def)
      show ?thesis
      proof (cases "py_upper st")
        case (Inl e)
        then have "py_upper st = Inl AttributeError" using py_upper_error by blast
        with st js Cons.prems show ?thesis
          by (simp add: wait_loop_Cons status_value del: wait_loop.simps)
      next
        case (Inr u)
        note u = Inr
        show ?thesis
        proof (cases "finished u")
          case True
          with u st js Cons.prems show ?thesis
            by (simp add: wait_loop_Cons status_value del: wait_loop.simps)
        next
          case False
          then have nt: "\<not> terminal st" using u by (simp add: terminal_def)
          show ?thesis
          proof (cases "POLL_TIMEOUT < clock ?w' - start")
            case True
            with False u st js have "wait_loop start (p # ps) run_id w = (Some (Inl TimeoutError), ?w')"
              by (simp add: wait_loop_Cons status_value del: wait_loop.simps)
            with True len obs nt show ?thesis
              by (intro exI [of _ 1]) simp
          next
            case late: False
            let ?w'' = "sleep POLL_EVERY (snd p) ?w'"
            from late False u st js
            have eq: "wait_loop start (p # ps) run_id w = wait_loop start ps run_id ?w''"
              by (simp add: wait_loop_Cons status_value del: wait_loop.simps)
            with Cons.prems have "fst (wait_loop start ps run_id ?w'') = Some (Inl TimeoutError)"
              by simp
            from Cons.IH [OF this] obtain n where n:
              "length (sent (snd (wait_loop start ps run_id ?w''))) = length (sent ?w'') + n"
              "1 \<le> n" "n \<le> length ps"
              "\<forall>p \<in> set (take n ps). \<exists>st. observed p = Some st \<and> \<not> terminal st"
              "POLL_TIMEOUT < clock (snd (wait_loop start ps run_id ?w'')) - start"
              by blast
            have "length (sent ?w'') = length (sent w) + 1"
              using len by (simp add: sleep_def)
            with n obs nt show ?thesis
              unfolding eq by (intro exI [of _ "Suc n"]) simp
          qed
        qed
      qed
    qed
  qed
qed

lemma status_never_timeout: "fst (get_test_run_status x run_id w) \<noteq> Inl TimeoutError"
proof
  assume a: "fst (get_test_run_status x run_id w) = Inl TimeoutError"
  show False
  proof (cases "checked_json (answer x)")
    case (Inl e)
    with a have "e = TimeoutError" by (simp add: status_value)
    with checked_json_error [OF Inl] show False by simp
  next
    case (Inr js)
    with a have "status_of js = Inl TimeoutError" by (simp add: status_value)
    from status_of_error [OF this] show False by simp
  qed
qed

lemma py_upper_never_timeout: "py_upper st \<noteq> Inl TimeoutError"
  using py_upper_error [of st TimeoutError] by auto

lemma wait_loop_paced:
  assumes "\<forall>p \<in> set ps. snd (fst p) = 0 \<and> snd p = 0"
    and "fst (wait_loop start ps run_id w) = Some (Inl TimeoutError)"
  shows "POLL_TIMEOUT < clock w - start
           + POLL_EVERY * (real (length (sent (snd (wait_loop start ps run_id w))))
                            - real (length (sent w)) - 1)"
  using assms
proof (induction ps arbitrary: w)
  case Nil
  then show ?case by simp
next
  case (Cons p ps)
  let ?w' = "snd (get_test_run_status (fst p) run_id w)"
  let ?w'' = "sleep POLL_EVERY (snd p) ?w'"
  have p0: "snd (fst p) = 0" "snd p = 0" using Cons.prems(1) by simp_all
  have w': "length (sent ?w') = length (sent w) + 1" "clock ?w' = clock w"
    using p0 by (simp_all add: status_world)
  have w'': "length (sent ?w'') = length (sent w) + 1" "clock ?w'' = clock w + POLL_EVERY"
    using p0 w' by (simp_all add: sleep_def)
  from Cons.prems(2) consider
      (now) "wait_loop start (p # ps) run_id w = (Some (Inl TimeoutError), ?w')"
        "POLL_TIMEOUT < clock ?w' - start"
    | (later) "wait_loop start (p # ps) run_id w = wait_loop start ps run_id ?w''"
    by (auto simp add: wait_loop_Cons status_never_timeout py_upper_never_timeout
          simp del: wait_loop.simps split: sum.splits if_splits)
  then show ?case
  proof cases
    case now
    then show ?thesis using w' by simp
  next
    case later
    with Cons.prems(2) have "fst (wait_loop start ps run_id ?w'') = Some (Inl TimeoutError)"
      by simp
    with Cons.IH Cons.prems(1)
    have "POLL_TIMEOUT < clock ?w'' - start
           + POLL_EVERY * (real (length (sent (snd (wait_loop start ps run_id ?w''))))
                            - real (length (sent ?w'')) - 1)"
      by simp
    then show ?thesis
      unfolding later w'' by (simp add: algebra_simps)
  qed
qed

lemma running_rounds:
  "fst (wait_loop start (replicate n (prompt_round ''RUNNING'')) run_id w) =
     (if 0 < n \<and> POLL_TIMEOUT < clock w - start + POLL_EVERY * (real n - 1)
        then Some (Inl TimeoutError) else None)"
proof (induction n arbitrary: w)
  case 0
  show ?case by simp
next
  case (Suc n)
  let ?r = "prompt_round ''RUNNING''"
  let ?w' = "snd (get_test_run_status (fst ?r) run_id w)"
  let ?w'' = "sleep POLL_EVERY (snd ?r) ?w'"
  have nf: "\<not> finished (upper ''RUNNING'')"
    by (simp add: upper_def upper_char_def finished_def)
  have pos: "0 < POLL_EVERY" by (simp add: POLL_EVERY_def)
  have c': "clock ?w' = clock w"
    by (simp add: status_world prompt_round_times)
  have c'': "clock ?w'' = clock w + POLL_EVERY"
    by (simp add: sleep_def status_world prompt_round_times)
  have unfold: "wait_loop start (replicate (Suc n) ?r) run_id w =
      (if POLL_TIMEOUT < clock w - start then (Some (Inl TimeoutError), ?w')
       else wait_loop start (replicate n ?r) run_id ?w'')"
    using nf c' by (simp add: wait_loop_Cons prompt_round_status del: wait_loop.simps)
  show ?case
  proof (cases "POLL_TIMEOUT < clock w - start")
    case True
    have "0 \<le> POLL_EVERY * real n" using pos by simp
    with True have "POLL_TIMEOUT < clock w - start + POLL_EVERY * real n" by linarith
    with True show ?thesis unfolding unfold by simp
  next
    case False
    then have "fst (wait_loop start (replicate (Suc n) ?r) run_id w) =
        (if 0 < n \<and> POLL_TIMEOUT < clock ?w'' - start + POLL_EVERY * (real n - 1)
           then Some (Inl TimeoutError) else None)"
      unfolding unfold using Suc.IH [of ?w''] by simp
    also have "\<dots> = (if 0 < Suc n \<and> POLL_TIMEOUT < clock w - start + POLL_EVERY * (real (Suc n) - 1)
           then Some (Inl TimeoutError) else None)"
    proof (cases n)
      case 0
      with False show ?thesis by simp
    next
      case (Suc m)
      have "clock ?w'' - start + POLL_EVERY * (real n - 1) = clock w - start + POLL_EVERY * real n"
        unfolding c'' by (simp add: algebra_simps)
      with Suc show ?thesis by simp
    qed
    finally show ?thesis .
  qed
qed

text \<open>
  C3, as the code has it. When \<open>wait_until_finished\<close> raises TimeoutError, it has polled
  at least once, every poll it made showed a status that is not terminal, and the clock
  shows more than \<open>POLL_TIMEOUT\<close> seconds since the start. The number of polls is bounded
  from below only when nothing but the sleeps takes time: if every status request is
  answered at once and no sleep is late, at least \<open>ceil (POLL_TIMEOUT / POLL_EVERY)\<close> polls
  were made. Both scripts run the same loop.
\<close>

theorem timeout_only_after_polls:
  assumes "fst (wait_until_finished ps run_id w) = Some (Inl TimeoutError)"
  shows "1 \<le> polls_made w (snd (wait_until_finished ps run_id w))
         \<and> polls_made w (snd (wait_until_finished ps run_id w)) \<le> length ps
         \<and> (\<forall>p \<in> set (take (polls_made w (snd (wait_until_finished ps run_id w))) ps).
               \<exists>st. observed p = Some st \<and> \<not> terminal st)
         \<and> POLL_TIMEOUT < clock (snd (wait_until_finished ps run_id w)) - clock w
         \<and> ((\<forall>p \<in> set ps. snd (fst p) = 0 \<and> snd p = 0) \<longrightarrow>
              \<lceil>POLL_TIMEOUT / POLL_EVERY\<rceil> \<le> int (polls_made w (snd (wait_until_finished ps run_id w))))
         \<and> wait_until_finished_vi ps run_id w = wait_until_finished ps run_id w"
proof -
  let ?w' = "snd (wait_loop (clock w) ps run_id w)"
  from assms have t: "fst (wait_loop (clock w) ps run_id w) = Some (Inl TimeoutError)"
    by (simp add: wait_until_finished_def)
  from wait_loop_timeout [OF t] obtain n where n:
    "length (sent ?w') = length (sent w) + n" "1 \<le> n" "n \<le> length ps"
    "\<forall>p \<in> set (take n ps). \<exists>st. observed p = Some st \<and> \<not> terminal st"
    "POLL_TIMEOUT < clock ?w' - clock w"
    by blast
  have pm: "polls_made w ?w' = n"
    using n(1) by (simp add: polls_made_def)
  have paced: "\<lceil>POLL_TIMEOUT / POLL_EVERY\<rceil> \<le> int n"
    if "\<forall>p \<in> set ps. snd (fst p) = 0 \<and> snd p = 0"
  proof -
    from wait_loop_paced [OF that t] n(1)
    have "POLL_TIMEOUT < POLL_EVERY * (real n - 1)" by simp
    then have "300 < real n - 1" by (simp add: POLL_TIMEOUT_def POLL_EVERY_def)
    then have "300 < n" by linarith
    then show ?thesis by (simp add: POLL_TIMEOUT_def POLL_EVERY_def)
  qed
  show ?thesis
    using n(2-5) paced pm
    by (simp add: wait_until_finished_def wait_until_finished_vi_def wait_loop_vi_eq)
qed

theorem timeout_only_after_polls_witness:
  "fst (wait_until_finished (replicate 302 (prompt_round ''RUNNING'')) (JStr ''RUN1'') empty_world) =
     Some (Inl TimeoutError)
   \<and> fst (wait_until_finished (replicate 301 (prompt_round ''RUNNING'')) (JStr ''RUN1'') empty_world) =
     None
   \<and> \<lceil>POLL_TIMEOUT / POLL_EVERY\<rceil> = 300
   \<and> 300 \<le> int (polls_made empty_world
        (snd (wait_until_finished (replicate 302 (prompt_round ''RUNNING'')) (JStr ''RUN1'') empty_world)))"
proof -
  have t: "fst (wait_until_finished (replicate 302 (prompt_round ''RUNNING'')) (JStr ''RUN1'')
             empty_world) = Some (Inl TimeoutError)"
    by (simp add: wait_until_finished_def running_rounds POLL_TIMEOUT_def POLL_EVERY_def)
  have n: "fst (wait_until_finished (replicate 301 (prompt_round ''RUNNING'')) (JStr ''RUN1'')
             empty_world) = None"
    by (simp add: wait_until_finished_def running_rounds POLL_TIMEOUT_def POLL_EVERY_def)
  have c: "\<lceil>POLL_TIMEOUT / POLL_EVERY\<rceil> = 300"
    by (simp add: POLL_TIMEOUT_def POLL_EVERY_def)
  show ?thesis
    using timeout_only_after_polls [OF t] t n c
    by (simp add: prompt_round_times)
qed

text \<open>
  The claim as written fails when a status request is slow: one poll that takes 1501
  seconds and shows RUNNING is followed by TimeoutError, after one poll instead of 300.
\<close>

theorem timeout_only_after_polls_counterexample:
  "fst (wait_until_finished [((Some (json_response 200 (JObj [(''status'', JStr ''RUNNING'')])), 1501), 0)]
          (JStr ''RUN1'') empty_world) = Some (Inl TimeoutError)
   \<and> polls_made empty_world
        (snd (wait_until_finished [((Some (json_response 200 (JObj [(''status'', JStr ''RUNNING'')])), 1501), 0)]
          (JStr ''RUN1'') empty_world)) = 1
   \<and> (1::int) < \<lceil>POLL_TIMEOUT / POLL_EVERY\<rceil>"
  by (simp add: wait_until_finished_def wait_loop_Cons status_value status_world polls_made_def
        json_response_def answer_def checked_json_def raise_for_status_def r_json_def
        status_of_def get_in_def por_def upper_def upper_char_def finished_def empty_world_def
        POLL_TIMEOUT_def POLL_EVERY_def del: wait_loop.simps(2))

section \<open>Files: the upload and the report\<close>




text \<open>
  C7, as the code has it. When the report request is answered with a status from 400 to
  599, \<open>download_report_html\<close> fails with HTTPError and the files are as they were: the
  destination is neither created nor rewritten, since the exception comes before the
  file is opened.
\<close>

theorem report_error_leaves_files:
  assumes "fst x = Some r" and "400 \<le> status_code r" and "status_code r < 600"
  shows "fst (download_report_html x run_id out_path w) = Inl (HTTPError (status_code r))
         \<and> files (snd (download_report_html x run_id out_path w)) = files w"
  using assms
  by (simp add: download_report_html_def http_def answer_def raise_for_status_def)

theorem report_error_leaves_files_witness:
  "fst (download_report_html (page_response 404 ''Not Found'') (JStr ''RUN1'')
          ''report_RUN1.html'' empty_world) = Inl (HTTPError 404)
   \<and> files (snd (download_report_html (page_response 404 ''Not Found'') (JStr ''RUN1'')
          ''report_RUN1.html'' empty_world)) ''report_RUN1.html'' = Missing None"
  using report_error_leaves_files [of "page_response 404 ''Not Found''"
      "\<lparr>status_code = 404, content = ''Not Found'', decoded = None\<rparr>"
      "JStr ''RUN1''" "''report_RUN1.html''" empty_world]
  by (simp add: page_response_def empty_world_def no_files_def)

text \<open>
  The claim as written fails on a status that is neither 2xx nor an error for
  \<^verbatim>\<open>raise_for_status\<close>: with 300, on a machine where the destination can be created, the
  call succeeds and the destination file is there.
\<close>

theorem report_error_leaves_files_counterexample:
  "files empty_world ''report_RUN1.html'' = Missing None
   \<and> fst (download_report_html (page_response 300 ''<html/>'') (JStr ''RUN1'')
          ''report_RUN1.html'' empty_world) = Inr ''report_RUN1.html''
   \<and> files (snd (download_report_html (page_response 300 ''<html/>'') (JStr ''RUN1'')
          ''report_RUN1.html'' empty_world)) ''report_RUN1.html'' =
       RegularFile None None ''<html/>''"
  by (simp add: download_report_html_def http_def answer_def raise_for_status_def write_wb_def
        page_response_def empty_world_def no_files_def)

section \<open>The lookup from label to id: which suite wins\<close>

lemma key_eq_str: "key_eq k (JStr l) \<longleftrightarrow> k = JStr l" "key_eq (JStr l) k \<longleftrightarrow> k = JStr l"
  by (cases k; auto simp: key_eq_def)+

lemma item_of_dict_set:
  "item_of (dict_set d k v) (JStr l) = (if k = JStr l then Some v else item_of d (JStr l))"
proof (induction d)
  case Nil
  show ?case by (simp add: key_eq_str)
next
  case (Cons kv d)
  obtain k' v' where kv: "kv = (k', v')" by (cases kv)
  show ?case
  proof (cases "key_eq k' k")
    case True
    then have "k' = JStr l \<longleftrightarrow> k = JStr l"
      using key_eq_str by metis
    with True kv show ?thesis by (simp add: key_eq_str)
  next
    case False
    then have "\<not> (k' = JStr l \<and> k = JStr l)"
      using key_eq_str by metis
    with False kv Cons.IH show ?thesis by (auto simp: key_eq_str)
  qed
qed

lemma fill_lookup_item:
  "fill_lookup d0 ss = Inr d \<Longrightarrow>
   item_of d (JStr l) = (case last_match l ss of Some i \<Rightarrow> Some i | None \<Rightarrow> item_of d0 (JStr l))"
proof (induction ss arbitrary: d0)
  case Nil
  then show ?case by simp
next
  case (Cons s ss)
  from Cons.prems obtain lab i where s: "subscript s ''label'' = Inr lab" "subscript s ''id'' = Inr i"
    and rest: "fill_lookup (dict_set d0 lab i) ss = Inr d"
    by (auto split: sum.splits if_splits)
  from Cons.IH [OF rest] s show ?case
    by (auto simp: item_of_dict_set split: option.splits)
qed

lemma fill_lookup_suites:
  "fill_lookup d0 ss = Inr d \<Longrightarrow>
   \<forall>s \<in> set ss. \<exists>lab i. subscript s ''label'' = Inr lab \<and> subscript s ''id'' = Inr i"
proof (induction ss arbitrary: d0)
  case Nil
  then show ?case by simp
next
  case (Cons s ss)
  from Cons.prems obtain lab i where s: "subscript s ''label'' = Inr lab" "subscript s ''id'' = Inr i"
    and rest: "fill_lookup (dict_set d0 lab i) ss = Inr d"
    by (auto split: sum.splits if_splits)
  from Cons.IH [OF rest] s show ?case by simp
qed

lemma last_match_None:
  "\<forall>s \<in> set ss. \<exists>lab i. subscript s ''label'' = Inr lab \<and> subscript s ''id'' = Inr i \<Longrightarrow>
   last_match l ss = None \<longleftrightarrow> (\<forall>s \<in> set ss. subscript s ''label'' \<noteq> Inr (JStr l))"
  by (induction ss) (auto split: option.splits)

lemma at_path_step:
  "at_path (k # ks) j = Some v \<Longrightarrow> \<exists>j'. subscript j k = Inr j' \<and> at_path ks j' = Some v"
  by (cases j) (auto split: option.splits)

lemma subscript_path:
  assumes "at_path [a, b, c] data = Some v"
  shows "subscript_in (subscript_in (subscript data a) b) c = Inr v"
proof -
  from at_path_step [OF assms] obtain j1 where 1: "subscript data a = Inr j1"
    "at_path [b, c] j1 = Some v" by blast
  from at_path_step [OF 1(2)] obtain j2 where 2: "subscript j1 b = Inr j2"
    "at_path [c] j2 = Some v" by blast
  from at_path_step [OF 2(2)] have "subscript j2 c = Inr v" by simp
  with 1 2 show ?thesis by (simp add: subscript_in_def)
qed

text \<open>
  C8, as the code has it. When the suite block of the payload is an array and
  \<open>create_test_suite_lookup\<close> builds its dict from it, the dict holds, for a label, the id
  of the last suite of the array that carries exactly this label: the last match wins. A
  label that no suite carries is no key of the dict: \<^verbatim>\<open>lookup.get(label)\<close> is None and
  \<^verbatim>\<open>IDs_info[label]\<close> raises KeyError.
\<close>

theorem lookup_last_match:
  assumes "at_path suites_path data = Some (JArr suites)"
    and "create_test_suite_lookup data = Inr d"
  shows "lookup_get d label = (case last_match label suites of None \<Rightarrow> JNull | Some i \<Rightarrow> i)
         \<and> lookup_subscript d label =
             (case last_match label suites of None \<Rightarrow> Inl KeyError | Some i \<Rightarrow> Inr i)
         \<and> (last_match label suites = None \<longleftrightarrow>
              (\<forall>s \<in> set suites. subscript s ''label'' \<noteq> Inr (JStr label)))"
proof -
  from assms have f: "fill_lookup [] suites = Inr d"
    using subscript_path [of "''EtfItemCollection''" "''executableTestSuites''"
        "''ExecutableTestSuite''" data "JArr suites"]
    by (simp add: create_test_suite_lookup_def suites_path_def)
  have "item_of d (JStr label) = last_match label suites"
    using fill_lookup_item [OF f, of label] by (simp split: option.splits)
  then show ?thesis
    using last_match_None [OF fill_lookup_suites [OF f], of label]
    by (simp add: lookup_get_def lookup_subscript_def)
qed

theorem lookup_last_match_witness:
  "lookup_subscript [(JStr ''Suite A'', JStr ''EID3''), (JStr ''Suite B'', JStr ''EID2'')] ''Suite A'' =
     Inr (JStr ''EID3'')
   \<and> lookup_subscript [(JStr ''Suite A'', JStr ''EID3''), (JStr ''Suite B'', JStr ''EID2'')] ''Suite C'' =
     Inl KeyError
   \<and> lookup_get [(JStr ''Suite A'', JStr ''EID3''), (JStr ''Suite B'', JStr ''EID2'')] ''Suite C'' = JNull"
proof -
  let ?suites = "[suite ''EID1'' ''Suite A'', suite ''EID2'' ''Suite B'', suite ''EID3'' ''Suite A'']"
  have p: "at_path suites_path (catalog_of (JArr ?suites)) = Some (JArr ?suites)"
    by (simp add: suites_path_def catalog_of_def)
  have c: "create_test_suite_lookup (catalog_of (JArr ?suites)) =
      Inr [(JStr ''Suite A'', JStr ''EID3''), (JStr ''Suite B'', JStr ''EID2'')]"
    by (simp add: create_test_suite_lookup_def catalog_of_def suite_def subscript_in_def key_eq_def)
  show ?thesis
    using lookup_last_match [OF p c, of "''Suite A''"] lookup_last_match [OF p c, of "''Suite C''"]
    by (simp add: suite_def)
qed

text \<open>
  The claim as written fails on two suites with one label: the first match is EID1, and
  the lookup gives EID2.
\<close>

theorem lookup_last_match_counterexample:
  "first_match ''Suite A'' [suite ''EID1'' ''Suite A'', suite ''EID2'' ''Suite A''] = Some (JStr ''EID1'')
   \<and> create_test_suite_lookup (catalog_of (JArr [suite ''EID1'' ''Suite A'', suite ''EID2'' ''Suite A''])) =
       Inr [(JStr ''Suite A'', JStr ''EID2'')]
   \<and> lookup_subscript [(JStr ''Suite A'', JStr ''EID2'')] ''Suite A'' = Inr (JStr ''EID2'')
   \<and> lookup_get [(JStr ''Suite A'', JStr ''EID2'')] ''Suite A'' = JStr ''EID2''"
  by (simp add: create_test_suite_lookup_def catalog_of_def suite_def subscript_in_def key_eq_def
        lookup_subscript_def lookup_get_def)

section \<open>The suite catalog: one record for each suite\<close>

lemma suite_record_object: "\<exists>r. suite_record (JObj kvs) = Inr r"
  by (simp add: suite_record_def por_def)

lemma append_records_objects:
  "\<forall>e \<in> set es. \<exists>kvs. e = JObj kvs \<Longrightarrow>
   \<exists>rs. append_records acc es = Inr (acc @ rs) \<and> list_all2 (\<lambda>e r. suite_record e = Inr r) es rs"
proof (induction es arbitrary: acc)
  case Nil
  show ?case by simp
next
  case (Cons e es)
  from Cons.prems obtain kvs where e: "e = JObj kvs" by auto
  from suite_record_object obtain r where r: "suite_record (JObj kvs) = Inr r" by blast
  from Cons.IH [of "acc @ [r]"] Cons.prems obtain rs where
    rs: "append_records (acc @ [r]) es = Inr ((acc @ [r]) @ rs)"
      "list_all2 (\<lambda>e r. suite_record e = Inr r) es rs"
    by auto
  show ?case
    using e r rs by (intro exI [of _ "r # rs"]) simp
qed

lemma block_of_catalog:
  "find_block [''executableTestSuites'', ''items'', ''ExecutableTestSuites'']
     (JObj [(''executableTestSuites'', JObj [(''ExecutableTestSuite'', suites)])]) =
   Inr (JObj [(''ExecutableTestSuite'', suites)])"
  by simp

text \<open>An array of one or more suite objects gives one record for each, in the order of
  the array.\<close>

lemma suites_of_array:
  assumes "es \<noteq> []" and "\<forall>e \<in> set es. \<exists>kvs. e = JObj kvs"
  shows "\<exists>rs. suites_of (catalog_of (JArr es)) = Inr rs \<and> length rs = length es
           \<and> list_all2 (\<lambda>e r. suite_record e = Inr r) es rs"
proof -
  from append_records_objects [OF assms(2), of "[]"] obtain rs where
    rs: "append_records [] es = Inr rs" "list_all2 (\<lambda>e r. suite_record e = Inr r) es rs"
    by auto
  have "suites_of (catalog_of (JArr es)) = Inr rs"
    using assms(1) rs(1) by (simp add: suites_of_def catalog_of_def por_def)
  with rs(2) show ?thesis
    by (auto dest: list_all2_lengthD)
qed

text \<open>A single suite object gives one record, and a payload without the suite block
  gives none.\<close>

lemma suites_of_single:
  assumes "kvs \<noteq> []"
  shows "\<exists>r. suite_record (JObj kvs) = Inr r \<and> suites_of (catalog_of (JObj kvs)) = Inr [r]"
proof -
  from suite_record_object obtain r where r: "suite_record (JObj kvs) = Inr r" by blast
  then have "suites_of (catalog_of (JObj kvs)) = Inr [r]"
    using assms by (simp add: suites_of_def catalog_of_def por_def)
  with r show ?thesis by blast
qed

lemma suites_of_missing:
  "suites_of (JObj []) = Inr []"
  "suites_of (JObj [(''EtfItemCollection'', JObj [])]) = Inr []"
  "suites_of (JObj [(''EtfItemCollection'', JObj [(''executableTestSuites'', JObj [])])]) = Inr []"
  by (simp_all add: suites_of_def)

text \<open>
  C2. The catalog is to hold one record for each suite entry of the payload, in the order
  of the service: none when the suite block is missing, one when it is a single object.
  The three lemmas above show this for an array of one or more suites, for a single suite
  object and for a missing block. For the array with no suite in it the code does
  otherwise: the empty array counts as false, \<^verbatim>\<open>or ets_block\<close> puts the block itself in its
  place, and the catalog has one record, without an id, for a service that has no suite.
  \<open>get_test_suite_ids_safe\<close> gives the empty list for the same payload.
\<close>

theorem empty_array_phantom_suite:
  "fst (get_executable_test_suites (ok_json (catalog_of (JArr []))) empty_world) =
     Inr [JObj [(''id'', JNull), (''label'', JStr []), (''description'', JStr [])]]
   \<and> get_test_suite_ids_safe (catalog_of (JArr [])) = Inr []"
  by (simp add: get_executable_test_suites_def http_def answer_def ok_json_def json_response_def
        checked_json_def raise_for_status_def r_json_def suites_of_def catalog_of_def por_def
        suite_record_def get_test_suite_ids_safe_def suite_ids_body_def get_in_def)

end
